theory Spec2Isabelle
  imports Complex_Main "HOL-Library.Signed_Division"
begin

section \<open>Lenia engines of the Artificial_Life repository\<close>

text \<open>
  The repository holds three continuous cellular automata of the Lenia family:
  \<^item> the camera variant (title "Lenia with Camera Controls"): a sparse, normalised ring
    kernel, direct spatial convolution with toroidal wrap, grid 240 x 160;
  \<^item> \<^verbatim>\<open>lenia_lorenz.go\<close>: a dense 128 x 128 kernel array, convolution through a
    two-dimensional Fourier transform, growth parameters driven by a Lorenz system;
  \<^item> \<^verbatim>\<open>Lenia2.main.go\<close>: a fixed Gaussian disc kernel on a 256 x 256 grid.

  Go's \<^verbatim>\<open>float64\<close> and \<^verbatim>\<open>float32\<close> are read as the real numbers: rounding, infinities
  and NaN are outside this development. Go's \<^verbatim>\<open>int\<close> is read as \<^typ>\<open>int\<close>; every
  index computed below is far from the 64-bit range. Names follow the source; the
  definitions of \<^verbatim>\<open>lenia_lorenz.go\<close> carry the suffix \<open>_lz\<close> and those of
  \<^verbatim>\<open>Lenia2.main.go\<close> the suffix \<open>_l2\<close> where the files reuse a name.
\<close>

subsection \<open>Utilities\<close>

text \<open>\<^verbatim>\<open>func clamp(v, a, b float64) float64\<close>, the same in both engine files.\<close>

definition clamp :: "real \<Rightarrow> real \<Rightarrow> real \<Rightarrow> real" where
  "clamp v a b = (if v < a then a else if v > b then b else v)"

text \<open>
  \<^verbatim>\<open>func wrap(x, m int) int\<close>. Go's \<^verbatim>\<open>%\<close> truncates towards zero, which is \<open>smod\<close>
  on \<^typ>\<open>int\<close>.
\<close>

definition wrap :: "int \<Rightarrow> int \<Rightarrow> int" where
  "wrap x m = (if x \<ge> 0 then x smod m else (x smod m + m) smod m)"

subsection \<open>Growth function\<close>

text \<open>\<^verbatim>\<open>func growth(u, mu, sigma float64) float64\<close> of the camera variant.\<close>

definition growth :: "real \<Rightarrow> real \<Rightarrow> real \<Rightarrow> real" where
  "growth u mu sigma =
     (if sigma \<le> 0 then 0
      else 2 * exp (- ((u - mu) * (u - mu)) / (2 * sigma * sigma)) - 1)"

text \<open>The same function in \<^verbatim>\<open>lenia_lorenz.go\<close>, written with \<^verbatim>\<open>math.Pow(u-mu, 2)\<close>.\<close>

definition growth_lz :: "real \<Rightarrow> real \<Rightarrow> real \<Rightarrow> real" where
  "growth_lz u mu sigma =
     (if sigma \<le> 0 then 0
      else 2 * exp (- ((u - mu) ^ 2) / (2 * sigma * sigma)) - 1)"

text \<open>
  \<^verbatim>\<open>Lenia2.main.go\<close> fixes the centre and the width as constants and has no
  degenerate branch: \<^verbatim>\<open>func growth(S float64) float32\<close>.
\<close>

definition muG :: real where "muG = 3.14159"
definition sigmaG :: real where "sigmaG = 3.14159"

definition growth_l2 :: "real \<Rightarrow> real" where
  "growth_l2 S = (let exponent = - ((S - muG) ^ 2) / (2 * sigmaG ^ 2)
                  in 2.0 * exp exponent - 1.0)"

subsection \<open>The camera variant: kernel\<close>

text \<open>
  The constants of the file. The grid indices are loop counters from \<open>0\<close>, read as
  \<^typ>\<open>nat\<close>.
\<close>

definition gridW :: nat where "gridW = 240"
definition gridH :: nat where "gridH = 160"
definition radius :: real where "radius = 6.0"
definition dtDefault :: real where "dtDefault = 0.08"
definition muDefault :: real where "muDefault = 0.30"
definition sigDefault :: real where "sigDefault = 0.06"

text \<open>\<^verbatim>\<open>type KernelEntry struct { dx, dy int; w float64 }\<close>\<close>

record KernelEntry =
  dx :: int
  dy :: int
  w :: real

text \<open>
  The closure \<^verbatim>\<open>Kc\<close> of \<^verbatim>\<open>buildKernel\<close> with its captured local
  \<^verbatim>\<open>shellSigma := 0.15\<close>.
\<close>

definition shellSigma :: real where "shellSigma = 0.15"

definition Kc :: "real \<Rightarrow> real" where
  "Kc rNorm = (let x = (rNorm - 0.5) / shellSigma in exp (- 0.5 * x * x))"

text \<open>
  The body of the two nested loops of \<^verbatim>\<open>buildKernel\<close>: the accumulator is the
  pair of \<^verbatim>\<open>entries\<close> and \<^verbatim>\<open>sum\<close>. \<^verbatim>\<open>math.Hypot(p, q)\<close> is
  \<open>sqrt (p\<^sup>2 + q\<^sup>2)\<close>.
\<close>

definition kernel_body ::
  "real \<Rightarrow> int \<Rightarrow> int \<Rightarrow> KernelEntry list \<times> real \<Rightarrow> KernelEntry list \<times> real" where
  "kernel_body R dy' dx' acc =
     (let dist = sqrt ((of_int dx')\<^sup>2 + (of_int dy')\<^sup>2) in
      if dist \<le> R then
        (let rn = dist / R; w' = Kc rn
         in (fst acc @ [\<lparr>dx = dx', dy = dy', w = w'\<rparr>], snd acc + w'))
      else acc)"

text \<open>
  \<^verbatim>\<open>func buildKernel(R float64) ([]KernelEntry, float64)\<close>: the scan of the square
  \<open>[-Ri, Ri]\<^sup>2\<close> row by row, then the division of every weight by the sum; the
  second result is the literal \<open>1.0\<close>.
\<close>

definition buildKernel :: "real \<Rightarrow> KernelEntry list \<times> real" where
  "buildKernel R =
     (let Ri = \<lceil>R\<rceil>;
          acc = fold (\<lambda>dy' acc. fold (\<lambda>dx' acc. kernel_body R dy' dx' acc) [- Ri..Ri] acc)
                  [- Ri..Ri] ([], 0)
      in (map (\<lambda>e. e\<lparr>w := w e / snd acc\<rparr>) (fst acc), 1.0))"

subsection \<open>The camera variant: state and tick\<close>

text \<open>
  \<^verbatim>\<open>type Game struct\<close>, without the texture, the camera and the frame counters,
  which the tick neither reads nor writes. \<^verbatim>\<open>A\<close> and \<^verbatim>\<open>Anext\<close> are two separately
  allocated grids, so a write to one is never seen through the other.
\<close>

record Game =
  A :: "real list list"
  Anext :: "real list list"
  kernel :: "KernelEntry list"
  dt :: real
  mu :: real
  sigma :: real

text \<open>The innermost loop of \<^verbatim>\<open>step\<close>: the activity \<^verbatim>\<open>u\<close> of the cell \<open>(x, y)\<close>.\<close>

definition activity :: "Game \<Rightarrow> nat \<Rightarrow> nat \<Rightarrow> real" where
  "activity g y x =
     fold (\<lambda>k u.
         (let nx = wrap (int x + dx k) (int gridW);
              ny = wrap (int y + dy k) (int gridH)
          in u + w k * (A g ! nat ny ! nat nx)))
       (kernel g) 0"

text \<open>The body of the \<^verbatim>\<open>x\<close> loop: one write into \<^verbatim>\<open>g.Anext[y][x]\<close>.\<close>

definition step_cell :: "Game \<Rightarrow> nat \<Rightarrow> nat \<Rightarrow> real list list \<Rightarrow> real list list" where
  "step_cell g y x an =
     (let u = activity g y x;
          val = A g ! y ! x + dt g * growth u (mu g) (sigma g)
      in an[y := (an ! y)[x := clamp val 0 1]])"

text \<open>
  \<^verbatim>\<open>func (g *Game) step()\<close>: both loops write into \<^verbatim>\<open>g.Anext\<close>, then the two
  grids are exchanged.
\<close>

definition step :: "Game \<Rightarrow> Game" where
  "step g =
     (let an = fold (\<lambda>y an. fold (\<lambda>x an. step_cell g y x an) [0..<gridW] an)
                 [0..<gridH] (Anext g)
      in g\<lparr>A := an, Anext := A g\<rparr>)"

text \<open>A grid of the engine's shape: \<open>gridH\<close> rows of \<open>gridW\<close> cells.\<close>

definition wf_field :: "real list list \<Rightarrow> bool" where
  "wf_field F \<longleftrightarrow> length F = gridH \<and> (\<forall>row \<in> set F. length row = gridW)"

text \<open>Every cell of a grid lies in \<open>[0, 1]\<close>.\<close>

definition unit_field :: "real list list \<Rightarrow> bool" where
  "unit_field F \<longleftrightarrow> (\<forall>row \<in> set F. \<forall>v \<in> set row. 0 \<le> v \<and> v \<le> 1)"

text \<open>
  The cyclic shift of a grid by \<open>(sx, sy)\<close>: the cell \<open>(x, y)\<close> of the shifted grid holds
  the cell \<open>((x - sx) mod gridW, (y - sy) mod gridH)\<close> of the original. The source has
  no such operation; it is the shift of the translation-invariance property.
\<close>

definition shift_field :: "int \<Rightarrow> int \<Rightarrow> real list list \<Rightarrow> real list list" where
  "shift_field sx sy F =
     map (\<lambda>y. map (\<lambda>x. F ! nat ((int y - sy) mod int gridH)
                            ! nat ((int x - sx) mod int gridW)) [0..<gridW]) [0..<gridH]"

text \<open>The value that the tick writes into the cell \<open>(x, y)\<close> of \<^verbatim>\<open>g.Anext\<close>.\<close>

definition next_value :: "Game \<Rightarrow> nat \<Rightarrow> nat \<Rightarrow> real" where
  "next_value g y x =
     clamp (A g ! y ! x + dt g * growth (activity g y x) (mu g) (sigma g)) 0 1"

subsection \<open>The process-global random generator\<close>

text \<open>
  \<^verbatim>\<open>math/rand\<close>'s package-level generator is state outside every function of the
  repository. Its state is read as the sequence of values that the coming calls of
  \<^verbatim>\<open>rand.Float64()\<close> return; a call returns the first and leaves the rest.
\<close>

type_synonym rng = "nat \<Rightarrow> real"

definition Float64 :: "rng \<Rightarrow> real \<times> rng" where
  "Float64 r = (r 0, \<lambda>n. r (Suc n))"

text \<open>A loop over a list of indices that threads the generator through its body.\<close>

fun map_rng :: "('a \<Rightarrow> rng \<Rightarrow> 'b \<times> rng) \<Rightarrow> 'a list \<Rightarrow> rng \<Rightarrow> 'b list \<times> rng" where
  "map_rng f [] r = ([], r)"
| "map_rng f (i # is) r =
     (let (v, r1) = f i r; (vs, r2) = map_rng f is r1 in (v # vs, r2))"

subsection \<open>The camera variant: construction\<close>

text \<open>
  The body of the seeding loops of \<^verbatim>\<open>NewGame\<close>: the cell starts at the zero of
  \<^verbatim>\<open>make\<close>, takes the blob value within distance 16 of the centre, and is overwritten
  by a random value when the first draw falls below \<open>0.001\<close>.
\<close>

definition init_cell :: "nat \<Rightarrow> nat \<Rightarrow> rng \<Rightarrow> real \<times> rng" where
  "init_cell y x r =
     (let cx = int gridW div 2; cy = int gridH div 2;
          d = sqrt ((of_int (int x - cx))\<^sup>2 + (of_int (int y - cy))\<^sup>2);
          v = (if d < 16 then 0.8 * exp (- d * d / (2 * 8 * 8)) else 0);
          (p, r1) = Float64 r
      in if p < 0.001 then (let (q, r2) = Float64 r1 in (q * 0.8 + 0.1, r2)) else (v, r1))"

text \<open>
  \<^verbatim>\<open>func NewGame() *Game\<close>; the argument is the state of the global generator when
  the function is called.
\<close>

definition NewGame :: "rng \<Rightarrow> Game" where
  "NewGame r =
     (let A0 = fst (map_rng (\<lambda>y. map_rng (\<lambda>x. init_cell y x) [0..<gridW]) [0..<gridH] r);
          Anext0 = replicate gridH (replicate gridW 0);
          kernel0 = fst (buildKernel radius)
      in \<lparr>A = A0, Anext = Anext0, kernel = kernel0,
          dt = dtDefault, mu = muDefault, sigma = sigDefault\<rparr>)"

subsection \<open>\<^verbatim>\<open>lenia_lorenz.go\<close>: kernel, driver, transform\<close>

definition gridW_lz :: nat where "gridW_lz = 128"
definition gridH_lz :: nat where "gridH_lz = 128"

text \<open>\<^verbatim>\<open>type Genome struct { Mu, Sigma, Dt float64; ColorBias float64 }\<close>\<close>

record Genome =
  Mu :: real
  Sigma :: real
  Dt :: real
  ColorBias :: real

text \<open>
  \<^verbatim>\<open>func buildKernel(R float64) [][]float64\<close>: a dense grid, zero from \<^verbatim>\<open>make\<close>,
  with the shell weight written into every cell within distance \<open>R\<close> of the centre
  \<open>(gridW/2, gridH/2)\<close>. Nothing divides by the sum.
\<close>

definition buildKernel_lz :: "real \<Rightarrow> real list list" where
  "buildKernel_lz R =
     (let shellSigma = 0.15; cx = int gridW_lz div 2; cy = int gridH_lz div 2
      in map (\<lambda>y. map (\<lambda>x.
            (let dx = of_int (int x - cx); dy = of_int (int y - cy);
                 dist = sqrt (dx\<^sup>2 + dy\<^sup>2)
             in if dist \<le> R then
                  (let rn = dist / R; val = exp (- 0.5 * ((rn - 0.5) / shellSigma) ^ 2)
                   in val)
                else 0)) [0..<gridW_lz]) [0..<gridH_lz])"

text \<open>\<^verbatim>\<open>type Lorenz struct { x, y, z; sigma, rho, b; dt float64 }\<close>\<close>

record Lorenz =
  x_lor :: real
  y_lor :: real
  z_lor :: real
  sigma_lor :: real
  rho_lor :: real
  b_lor :: real
  dt_lor :: real

definition NewLorenz :: Lorenz where
  "NewLorenz = \<lparr>x_lor = 0.1, y_lor = 0, z_lor = 0,
                 sigma_lor = 10, rho_lor = 28, b_lor = 8.0 / 3.0, dt_lor = 0.01\<rparr>"

text \<open>\<^verbatim>\<open>func (l *Lorenz) Step()\<close>: the three slopes are taken before any coordinate moves.\<close>

definition Step :: "Lorenz \<Rightarrow> Lorenz" where
  "Step l =
     (let dx = sigma_lor l * (y_lor l - x_lor l);
          dy = x_lor l * (rho_lor l - z_lor l) - y_lor l;
          dz = x_lor l * y_lor l - b_lor l * z_lor l
      in l\<lparr>x_lor := x_lor l + dx * dt_lor l,
            y_lor := y_lor l + dy * dt_lor l,
            z_lor := z_lor l + dz * dt_lor l\<rparr>)"

text \<open>
  The transform object \<^verbatim>\<open>*fourier.FFT2\<close> comes from a library outside the
  repository. The engine uses two of its methods, both from a flat sequence of
  \<open>gridH * gridW\<close> complex numbers to another.
\<close>

record FFT2 =
  Coefficients :: "complex list \<Rightarrow> complex list"
  Sequence :: "complex list \<Rightarrow> complex list"

text \<open>
  Modelled from the spec: the library constructor \<^verbatim>\<open>fourier.NewFFT2(rows, cols)\<close> is
  outside the sources. Section 4.2 of the specification reads the two methods as the
  two-dimensional discrete Fourier transform of a row-major \<open>rows \<times> cols\<close> grid and its
  inverse. \<open>dft_phase\<close> is the angle \<open>2 \<pi> (k1 y / rows + k2 x / cols)\<close> between the
  frequency with flat index \<open>k = k1 cols + k2\<close> and the cell with flat index
  \<open>j = y cols + x\<close>.
\<close>

definition dft_phase :: "nat \<Rightarrow> nat \<Rightarrow> nat \<Rightarrow> nat \<Rightarrow> real" where
  "dft_phase rows cols k j =
     2 * pi * (real ((k div cols) * (j div cols)) / real rows
             + real ((k mod cols) * (j mod cols)) / real cols)"

text \<open>
  Modelled from the spec: \<^verbatim>\<open>Coefficients\<close> gives, for every frequency \<open>k\<close>, the sum of
  \<open>xs[j] exp (- i dft_phase k j)\<close> over the cells \<open>j\<close>; \<^verbatim>\<open>Sequence\<close> gives, for every
  cell \<open>j\<close>, the sum of \<open>cs[k] exp (i dft_phase k j)\<close> over the frequencies, divided by
  \<open>rows * cols\<close>, so that it inverts \<^verbatim>\<open>Coefficients\<close>.
\<close>

definition NewFFT2 :: "nat \<Rightarrow> nat \<Rightarrow> FFT2" where
  "NewFFT2 rows cols =
     \<lparr>Coefficients = (\<lambda>xs. map (\<lambda>k. \<Sum>j<rows * cols. xs ! j * cis (- dft_phase rows cols k j))
                               [0..<rows * cols]),
      Sequence = (\<lambda>cs. map (\<lambda>j. (\<Sum>k<rows * cols. cs ! k * cis (dft_phase rows cols k j))
                                   / of_nat (rows * cols))
                           [0..<rows * cols])\<rparr>"

subsection \<open>\<^verbatim>\<open>lenia_lorenz.go\<close>: state and tick\<close>

text \<open>
  \<^verbatim>\<open>type Game struct\<close> of this file, again without texture and frame counters. The
  driver is held through a pointer and changed in place; here it is a component.
\<close>

record Game_lz =
  A_lz :: "real list list"
  Anext_lz :: "real list list"
  genome :: Genome
  fft2d :: FFT2
  kernelFFT :: "complex list"
  lorenz :: Lorenz

text \<open>\<^verbatim>\<open>func flatten(m [][]float64) []complex128\<close>: row-major, \<open>len(m[0])\<close> cells a row.\<close>

definition flatten :: "real list list \<Rightarrow> complex list" where
  "flatten m0 =
     concat (map (\<lambda>y. map (\<lambda>x. Complex (m0 ! y ! x) 0) [0..<length (m0 ! 0)])
               [0..<length m0])"

text \<open>\<^verbatim>\<open>func reshape(data []complex128) [][]float64\<close>: the real parts, row by row.\<close>

definition reshape :: "complex list \<Rightarrow> real list list" where
  "reshape data =
     map (\<lambda>y. map (\<lambda>x. Re (data ! (y * gridW_lz + x))) [0..<gridW_lz]) [0..<gridH_lz]"

text \<open>The first block of \<^verbatim>\<open>step\<close>: the activity grid \<^verbatim>\<open>U\<close> through the transform.\<close>

definition activity_lz :: "Game_lz \<Rightarrow> real list list" where
  "activity_lz g =
     (let stateFFT = Coefficients (fft2d g) (flatten (A_lz g));
          stateFFT = map (\<lambda>i. stateFFT ! i * kernelFFT g ! i) [0..<length stateFFT];
          conv = Sequence (fft2d g) stateFFT
      in reshape conv)"

text \<open>The second block of \<^verbatim>\<open>step\<close>: one driver step, then the three genome updates.\<close>

definition modulate :: "Lorenz \<Rightarrow> Genome \<Rightarrow> Genome" where
  "modulate l gen =
     (let gen = gen\<lparr>Mu := clamp (Mu gen + 0.002 * tanh (x_lor l / 20)) 0.01 1.0\<rparr>;
          gen = gen\<lparr>Sigma := clamp (Sigma gen * (1 + 0.001 * y_lor l)) 0.001 1.0\<rparr>;
          gen = gen\<lparr>ColorBias := tanh (z_lor l / 30)\<rparr>
      in gen)"

text \<open>The value that the third block writes into the cell \<open>(x, y)\<close>.\<close>

definition next_value_lz :: "Game_lz \<Rightarrow> real list list \<Rightarrow> Genome \<Rightarrow> nat \<Rightarrow> nat \<Rightarrow> real" where
  "next_value_lz g U gen y x =
     (let u = U ! y ! x;
          grow = growth_lz u (Mu gen) (Sigma gen);
          val = A_lz g ! y ! x + Dt gen * grow
      in clamp val 0 1)"

text \<open>\<^verbatim>\<open>func (g *Game) step()\<close> of \<^verbatim>\<open>lenia_lorenz.go\<close>.\<close>

definition step_lz :: "Game_lz \<Rightarrow> Game_lz" where
  "step_lz g =
     (let U = activity_lz g;
          l = Step (lorenz g);
          gen = modulate l (genome g);
          an = fold (\<lambda>y an. fold (\<lambda>x an. an[y := (an ! y)[x := next_value_lz g U gen y x]])
                               [0..<gridW_lz] an)
                 [0..<gridH_lz] (Anext_lz g)
      in g\<lparr>A_lz := an, Anext_lz := A_lz g, genome := gen, lorenz := l\<rparr>)"

text \<open>
  The body of the seeding loops of this file's \<^verbatim>\<open>NewGame\<close>: blob of amplitude \<open>0.9\<close>
  within distance 12, random overwrite when the first draw falls below \<open>0.002\<close>.
\<close>

definition init_cell_lz :: "nat \<Rightarrow> nat \<Rightarrow> rng \<Rightarrow> real \<times> rng" where
  "init_cell_lz y x r =
     (let cx = int gridW_lz div 2; cy = int gridH_lz div 2;
          d = sqrt ((of_int (int x - cx))\<^sup>2 + (of_int (int y - cy))\<^sup>2);
          v = (if d < 12 then 0.9 * exp (- d * d / (2 * 6 * 6)) else 0);
          (p, r1) = Float64 r
      in if p < 0.002 then (let (q, r2) = Float64 r1 in (q, r2)) else (v, r1))"

text \<open>
  \<^verbatim>\<open>func NewGame() *Game\<close> of \<^verbatim>\<open>lenia_lorenz.go\<close>. Its first statement,
  \<^verbatim>\<open>rand.Seed(time.Now().UnixNano())\<close>, sets the global generator from the wall clock;
  the argument is the state of the generator after that statement.
\<close>

definition NewGame_lz :: "rng \<Rightarrow> Game_lz" where
  "NewGame_lz r =
     (let A0 = fst (map_rng (\<lambda>y. map_rng (\<lambda>x. init_cell_lz y x) [0..<gridW_lz])
                      [0..<gridH_lz] r);
          Anext0 = replicate gridH_lz (replicate gridW_lz 0);
          fft = NewFFT2 gridH_lz gridW_lz;
          kernel0 = buildKernel_lz 6;
          kernelFlat = flatten kernel0;
          kfft = Coefficients fft kernelFlat
      in \<lparr>A_lz = A0, Anext_lz = Anext0,
          genome = \<lparr>Mu = 0.3, Sigma = 0.06, Dt = 0.08, ColorBias = 0\<rparr>,
          fft2d = fft, kernelFFT = kfft, lorenz = NewLorenz\<rparr>)"

text \<open>Grids of the shape of this engine.\<close>

definition wf_field_lz :: "real list list \<Rightarrow> bool" where
  "wf_field_lz F \<longleftrightarrow> length F = gridH_lz \<and> (\<forall>row \<in> set F. length row = gridW_lz)"

text \<open>
  The two tick functions index both grids without a length check. The states they are
  meant for hold two grids of the engine's shape, as \<^verbatim>\<open>NewGame\<close> allocates them.
\<close>

definition wf_game :: "Game \<Rightarrow> bool" where
  "wf_game g \<longleftrightarrow> wf_field (A g) \<and> wf_field (Anext g)"

definition wf_game_lz :: "Game_lz \<Rightarrow> bool" where
  "wf_game_lz g \<longleftrightarrow> wf_field_lz (A_lz g) \<and> wf_field_lz (Anext_lz g)"

subsection \<open>\<^verbatim>\<open>Lenia2.main.go\<close>\<close>

definition width_l2 :: nat where "width_l2 = 256"
definition height_l2 :: nat where "height_l2 = 256"
definition R_l2 :: real where "R_l2 = 7.0"
definition sigmaK :: real where "sigmaK = 3.14159"
definition dt_l2 :: real where "dt_l2 = 0.00618033"

text \<open>\<^verbatim>\<open>RConv = int(R)\<close>: the conversion truncates.\<close>

definition RConv :: int where "RConv = \<lfloor>R_l2\<rfloor>"

text \<open>\<^verbatim>\<open>func kernel(dx, dy int) float32\<close>\<close>

definition kernel_l2 :: "int \<Rightarrow> int \<Rightarrow> real" where
  "kernel_l2 i j =
     (let r = sqrt (of_int (i * i + j * j)) in
      if r > R_l2 then 0.0 else exp (- r * r / (2 * sigmaK * sigmaK)))"

text \<open>The two inner loops of \<^verbatim>\<open>updateField\<close>: the activity \<^verbatim>\<open>sum\<close> of the cell \<open>(i, j)\<close>.\<close>

definition sum_l2 :: "real list list \<Rightarrow> nat \<Rightarrow> nat \<Rightarrow> real" where
  "sum_l2 field j i =
     fold (\<lambda>dy s. fold (\<lambda>dx s.
         (let ni = (int i + dx + int width_l2) smod int width_l2;
              nj = (int j + dy + int height_l2) smod int height_l2;
              k = kernel_l2 dx dy
          in s + field ! nat nj ! nat ni * k)) [- RConv..RConv] s) [- RConv..RConv] 0"

text \<open>The value written into \<^verbatim>\<open>next[j][i]\<close>, with the two clamping tests in order.\<close>

definition next_value_l2 :: "real list list \<Rightarrow> nat \<Rightarrow> nat \<Rightarrow> real" where
  "next_value_l2 field j i =
     (let val = field ! j ! i + dt_l2 * growth_l2 (sum_l2 field j i);
          val = (if val < 0 then 0 else val);
          val = (if val > 1 then 1 else val)
      in val)"

text \<open>
  \<^verbatim>\<open>func updateField()\<close>: the global array \<^verbatim>\<open>field\<close> is the argument and the result;
  \<^verbatim>\<open>next\<close> is a fresh zero array, and \<^verbatim>\<open>field = next\<close> copies it.
\<close>

definition updateField :: "real list list \<Rightarrow> real list list" where
  "updateField field =
     (let next0 = replicate height_l2 (replicate width_l2 0);
          next1 = fold (\<lambda>j nx. fold (\<lambda>i nx. nx[j := (nx ! j)[i := next_value_l2 field j i]])
                                   [0..<width_l2] nx)
                    [0..<height_l2] next0
      in next1)"

text \<open>\<^verbatim>\<open>rand.Float64()\<close> returns a value of the half-open interval \<open>[0, 1)\<close>.\<close>

definition valid_rng :: "rng \<Rightarrow> bool" where
  "valid_rng r \<longleftrightarrow> (\<forall>n. 0 \<le> r n \<and> r n < 1)"

subsection \<open>Notions used by the properties\<close>

text \<open>The one configuration error of the specification's taxonomy that construction can raise.\<close>

datatype error = InvalidParameter

text \<open>
  The kernel construction in the words of the specification (section 4.1): it fails with
  \<open>InvalidParameter\<close> if \<open>R \<le> 0\<close>, and gives the kernel otherwise. This is not a
  function of the source; the source's \<open>buildKernel\<close> has no failure result, so as a value
  of this type its outcome is always \<open>Inr\<close>.
\<close>

definition buildKernel_spec :: "real \<Rightarrow> error + KernelEntry list \<times> real" where
  "buildKernel_spec R = (if R \<le> 0 then Inl InvalidParameter else Inr (buildKernel R))"

text \<open>The total weight of a dense kernel grid.\<close>

definition kernel_mass :: "real list list \<Rightarrow> real" where
  "kernel_mass K = sum_list (map sum_list K)"

text \<open>
  The loop invariant of the scan of \<open>buildKernel\<close>: the running sum is the sum of the
  weights collected so far, and every collected weight is positive.
\<close>

definition kernel_inv :: "KernelEntry list \<times> real \<Rightarrow> bool" where
  "kernel_inv acc \<longleftrightarrow> snd acc = sum_list (map w (fst acc)) \<and> (\<forall>e \<in> set (fst acc). 0 < w e)"

text \<open>
  The direct strategy on a grid of any size: the innermost loop of the camera variant's
  \<^verbatim>\<open>step\<close> with the grid size as a parameter, so that it can be run on the field of
  the transform engine. At the camera variant's own size it is \<open>activity\<close>.
\<close>

definition direct_U ::
  "nat \<Rightarrow> nat \<Rightarrow> KernelEntry list \<Rightarrow> real list list \<Rightarrow> nat \<Rightarrow> nat \<Rightarrow> real" where
  "direct_U W H kern F y x =
     fold (\<lambda>k u.
         (let nx = wrap (int x + dx k) (int W);
              ny = wrap (int y + dy k) (int H)
          in u + w k * (F ! nat ny ! nat nx)))
       kern 0"

text \<open>The field of the transform engine's size with every cell \<open>1\<close>.\<close>

definition ones_lz :: "real list list" where
  "ones_lz = replicate gridH_lz (replicate gridW_lz 1)"

text \<open>The field of the same size with the single cell \<open>(0, 0)\<close> at \<open>1\<close> and all others \<open>0\<close>.\<close>

definition delta_lz :: "real list list" where
  "delta_lz = (replicate gridH_lz (replicate gridW_lz 0))[0 := (replicate gridW_lz 0)[0 := 1]]"

text \<open>
  Difference of two cells on the torus, in flat row-major indices: the cell whose row and
  column are those of \<open>j\<close> minus those of \<open>b\<close>, modulo \<open>rows\<close> and \<open>cols\<close>.
\<close>

definition torus_sub :: "nat \<Rightarrow> nat \<Rightarrow> nat \<Rightarrow> nat \<Rightarrow> nat" where
  "torus_sub rows cols j b =
     nat ((int (j div cols) - int (b div cols)) mod int rows) * cols
     + nat ((int (j mod cols) - int (b mod cols)) mod int cols)"

section \<open>Facts\<close>

subsection \<open>Facts about the utilities\<close>

lemma clamp_bounds: "a \<le> b \<Longrightarrow> a \<le> clamp v a b \<and> clamp v a b \<le> b"
  by (simp add: clamp_def)

lemma growth_lz_eq: "growth_lz u m s = growth u m s"
  by (simp add: growth_lz_def growth_def power2_eq_square)

lemma growth_l2_eq: "growth_l2 S = growth S muG sigmaG"
  by (simp add: growth_l2_def growth_def Let_def power2_eq_square sigmaG_def)

lemma growth_pos_formula:
  "0 < s \<Longrightarrow> growth u m s = 2 * exp (- (u - m)\<^sup>2 / (2 * s\<^sup>2)) - 1"
  by (simp add: growth_def power2_eq_square)

lemma growth_upper: "growth u m s \<le> 1"
proof (cases "s \<le> 0")
  case True
  then show ?thesis by (simp add: growth_def)
next
  case False
  have "0 \<le> (u - m) * (u - m) / (2 * (s * s))"
    by (rule divide_nonneg_nonneg) simp_all
  then have "- ((u - m) * (u - m)) / (2 * s * s) \<le> 0"
    by (simp add: mult.assoc)
  then have "exp (- ((u - m) * (u - m)) / (2 * s * s)) \<le> 1"
    by simp
  with False show ?thesis by (simp add: growth_def)
qed

lemma growth_lower: "- 1 \<le> growth u m s"
proof (cases "s \<le> 0")
  case True
  then show ?thesis by (simp add: growth_def)
next
  case False
  have "0 \<le> exp (- ((u - m) * (u - m)) / (2 * s * s))"
    by simp
  with False show ?thesis by (simp add: growth_def)
qed

lemma growth_max_iff:
  assumes "0 < s"
  shows "growth u m s = 1 \<longleftrightarrow> u = m"
proof -
  have pos: "0 < 2 * s * s" using assms by simp
  have "growth u m s = 1 \<longleftrightarrow>
        exp (- ((u - m) * (u - m)) / (2 * s * s)) = 1"
    using assms by (simp add: growth_def)
  also have "\<dots> \<longleftrightarrow> - ((u - m) * (u - m)) / (2 * s * s) = 0"
    by (rule exp_eq_one_iff)
  also have "\<dots> \<longleftrightarrow> u = m"
    using assms by simp
  finally show ?thesis .
qed

subsection \<open>Toroidal indices\<close>

lemma smod_nonneg: "0 \<le> x \<Longrightarrow> 0 < m \<Longrightarrow> (x::int) smod m = x mod m"
  by (simp add: signed_modulo_int_def sgn_if)

lemma wrap_mod: "0 < m \<Longrightarrow> wrap x m = x mod m"
proof (cases "0 \<le> x")
  case True
  assume "0 < m"
  with True show ?thesis by (simp add: wrap_def smod_nonneg)
next
  case False
  assume m: "0 < m"
  from False have x: "x < 0" by simp
  have s: "x smod m = - ((- x) mod m)"
    using x m by (simp add: signed_modulo_int_def sgn_if)
  have "0 \<le> (- x) mod m" "(- x) mod m < m" using m by simp_all
  then have nn: "0 \<le> x smod m + m" using s by simp
  have "wrap x m = (x smod m + m) mod m"
    using x nn m by (simp add: wrap_def smod_nonneg)
  also have "\<dots> = (- ((- x) mod m)) mod m" using s by simp
  also have "\<dots> = x mod m" by (simp add: mod_minus_eq)
  finally show ?thesis .
qed

lemma fold_add_sum_list:
  "fold (\<lambda>k u. u + f k) ks a = a + sum_list (map f ks)" for a :: real
  by (induction ks arbitrary: a) simp_all

lemma activity_sum:
  "activity g y x =
     (\<Sum>k\<leftarrow>kernel g. w k * (A g ! nat ((int y + dy k) mod int gridH)
                               ! nat ((int x + dx k) mod int gridW)))"
proof -
  have W: "0 < int gridW" and H: "0 < int gridH" by (simp_all add: gridW_def gridH_def)
  show ?thesis
    unfolding activity_def Let_def wrap_mod [OF W] wrap_mod [OF H]
    by (simp add: fold_add_sum_list)
qed

subsection \<open>Loops that overwrite a grid cell by cell\<close>

lemma fill_row:
  "y < length an \<Longrightarrow> n \<le> length (an ! y) \<Longrightarrow>
   fold (\<lambda>x an. an[y := (an ! y)[x := f x]]) [0..<n] an
     = an[y := map f [0..<n] @ drop n (an ! y)]"
proof (induction n)
  case 0
  then show ?case by simp
next
  case (Suc n)
  then have n: "n < length (an ! y)" by simp
  have "(map f [0..<n] @ drop n (an ! y))[n := f n] = map f [0..<n] @ (drop n (an ! y))[0 := f n]"
    by (simp add: list_update_append)
  also have "(drop n (an ! y))[0 := f n] = f n # drop (Suc n) (an ! y)"
    using n by (simp add: Cons_nth_drop_Suc [symmetric])
  finally show ?case using Suc by simp
qed

lemma fill_rows:
  assumes "\<forall>row \<in> set an. length row = W"
  shows "n \<le> length an \<Longrightarrow>
     fold (\<lambda>y an. fold (\<lambda>x an. an[y := (an ! y)[x := f y x]]) [0..<W] an) [0..<n] an
       = map (\<lambda>y. map (f y) [0..<W]) [0..<n] @ drop n an"
proof (induction n)
  case 0
  then show ?case by simp
next
  case (Suc n)
  then have n: "n < length an" by simp
  let ?done = "map (\<lambda>y. map (f y) [0..<W]) [0..<n]"
  let ?mid = "?done @ drop n an"
  have len: "n < length ?mid" using n by simp
  have row: "?mid ! n = an ! n" using n by (simp add: nth_append)
  have "length (an ! n) = W" using assms n by simp
  then have "fold (\<lambda>x an. an[n := (an ! n)[x := f n x]]) [0..<W] ?mid
             = ?mid[n := map (f n) [0..<W]]"
    using fill_row [OF len, of W "f n"] row by simp
  also have "\<dots> = ?done @ (drop n an)[0 := map (f n) [0..<W]]"
    by (simp add: list_update_append)
  also have "(drop n an)[0 := map (f n) [0..<W]]
             = map (f n) [0..<W] # drop (Suc n) an"
    using n by (simp add: Cons_nth_drop_Suc [symmetric])
  finally show ?case using Suc by simp
qed

subsection \<open>The tick of the camera variant\<close>

lemma step_cell_eq: "step_cell g y x an = an[y := (an ! y)[x := next_value g y x]]"
  by (simp add: step_cell_def next_value_def Let_def)

lemma step_A:
  assumes "wf_field (Anext g)"
  shows "A (step g) = map (\<lambda>y. map (next_value g y) [0..<gridW]) [0..<gridH]"
  using assms fill_rows [of "Anext g" gridW gridH "next_value g"]
  by (simp add: step_def wf_field_def Let_def step_cell_eq)

lemma step_other:
  "Anext (step g) = A g" "kernel (step g) = kernel g" "dt (step g) = dt g"
  "mu (step g) = mu g" "sigma (step g) = sigma g"
  by (simp_all add: step_def Let_def)

lemma next_value_unit: "0 \<le> next_value g y x \<and> next_value g y x \<le> 1"
  by (simp add: next_value_def clamp_def)

lemma step_wf: "wf_field (Anext g) \<Longrightarrow> wf_field (A (step g))"
  by (simp add: step_A) (simp add: wf_field_def)

lemma step_unit: "wf_field (Anext g) \<Longrightarrow> unit_field (A (step g))"
  by (simp add: step_A) (auto simp add: unit_field_def next_value_unit)

lemma step_wf_game: "wf_game g \<Longrightarrow> wf_game (step g)"
  by (simp add: wf_game_def step_wf step_other)

lemma steps_wf_game: "wf_game g \<Longrightarrow> wf_game ((step ^^ n) g)"
  by (induction n) (simp_all add: step_wf_game)

subsection \<open>The tick of \<^verbatim>\<open>lenia_lorenz.go\<close>\<close>

lemma step_lz_A:
  assumes "wf_field_lz (Anext_lz g)"
  shows "A_lz (step_lz g) =
     map (\<lambda>y. map (next_value_lz g (activity_lz g) (modulate (Step (lorenz g)) (genome g)) y)
                [0..<gridW_lz]) [0..<gridH_lz]"
  using assms
    fill_rows [of "Anext_lz g" gridW_lz gridH_lz
      "next_value_lz g (activity_lz g) (modulate (Step (lorenz g)) (genome g))"]
  by (simp add: step_lz_def wf_field_lz_def Let_def)

lemma step_lz_other:
  "Anext_lz (step_lz g) = A_lz g" "genome (step_lz g) = modulate (Step (lorenz g)) (genome g)"
  "lorenz (step_lz g) = Step (lorenz g)" "fft2d (step_lz g) = fft2d g"
  "kernelFFT (step_lz g) = kernelFFT g"
  by (simp_all add: step_lz_def Let_def)

lemma next_value_lz_unit: "0 \<le> next_value_lz g U gen y x \<and> next_value_lz g U gen y x \<le> 1"
  by (simp add: next_value_lz_def clamp_def Let_def)

lemma step_lz_wf: "wf_field_lz (Anext_lz g) \<Longrightarrow> wf_field_lz (A_lz (step_lz g))"
  by (simp add: step_lz_A) (simp add: wf_field_lz_def)

lemma step_lz_unit: "wf_field_lz (Anext_lz g) \<Longrightarrow> unit_field (A_lz (step_lz g))"
  by (simp add: step_lz_A) (auto simp add: unit_field_def next_value_lz_unit)

lemma step_lz_wf_game: "wf_game_lz g \<Longrightarrow> wf_game_lz (step_lz g)"
  by (simp add: wf_game_lz_def step_lz_wf step_lz_other)

lemma steps_lz_wf_game: "wf_game_lz g \<Longrightarrow> wf_game_lz ((step_lz ^^ n) g)"
  by (induction n) (simp_all add: step_lz_wf_game)

subsection \<open>Construction\<close>

lemma map_rng_length: "length (fst (map_rng f xs r)) = length xs"
  by (induction xs arbitrary: r) (simp_all add: split_beta Let_def)

lemma map_rng_all:
  assumes "\<And>i r. valid_rng r \<Longrightarrow> P (fst (f i r)) \<and> valid_rng (snd (f i r))"
  shows "valid_rng r \<Longrightarrow>
         (\<forall>v \<in> set (fst (map_rng f xs r)). P v) \<and> valid_rng (snd (map_rng f xs r))"
proof (induction xs arbitrary: r)
  case Nil
  then show ?case by simp
next
  case (Cons i xs)
  from assms [OF Cons.prems] have h: "P (fst (f i r))" and v: "valid_rng (snd (f i r))"
    by simp_all
  from Cons.IH [OF v] h show ?case
    by (simp add: split_beta Let_def)
qed

lemma Float64_valid:
  "valid_rng r \<Longrightarrow> 0 \<le> fst (Float64 r) \<and> fst (Float64 r) < 1 \<and> valid_rng (snd (Float64 r))"
  by (simp add: Float64_def valid_rng_def)

lemma exp_neg_sq_le_1: "0 < c \<Longrightarrow> exp (- d * d / c) \<le> 1" for c d :: real
proof -
  assume "0 < c"
  then have "0 \<le> d * d / c" by (simp add: divide_nonneg_pos)
  then have "- d * d / c \<le> 0" by simp
  then show ?thesis by simp
qed

lemma init_cell_unit:
  assumes "valid_rng r"
  shows "(0 \<le> fst (init_cell y x r) \<and> fst (init_cell y x r) \<le> 1) \<and> valid_rng (snd (init_cell y x r))"
proof -
  let ?r1 = "snd (Float64 r)"
  have v1: "valid_rng ?r1" using assms Float64_valid by blast
  have q: "0 \<le> fst (Float64 ?r1)" "fst (Float64 ?r1) < 1" "valid_rng (snd (Float64 ?r1))"
    using Float64_valid [OF v1] by simp_all
  have b: "4 * exp ((- p\<^sup>2 - q\<^sup>2) / 128) \<le> 5" for p q :: real
  proof -
    have "(- p\<^sup>2 - q\<^sup>2) / 128 \<le> 0" by (simp add: divide_le_0_iff)
    then have "exp ((- p\<^sup>2 - q\<^sup>2) / 128) \<le> 1" by (simp only: exp_le_one_iff)
    then show ?thesis by linarith
  qed
  show ?thesis
    using v1 q b by (simp add: init_cell_def Let_def split_beta)
qed

lemma init_cell_lz_unit:
  assumes "valid_rng r"
  shows "(0 \<le> fst (init_cell_lz y x r) \<and> fst (init_cell_lz y x r) \<le> 1) \<and> valid_rng (snd (init_cell_lz y x r))"
proof -
  let ?r1 = "snd (Float64 r)"
  have v1: "valid_rng ?r1" using assms Float64_valid by blast
  have q: "0 \<le> fst (Float64 ?r1)" "fst (Float64 ?r1) < 1" "valid_rng (snd (Float64 ?r1))"
    using Float64_valid [OF v1] by simp_all
  have b: "9 * exp ((- p\<^sup>2 - q\<^sup>2) / 72) \<le> 10" for p q :: real
  proof -
    have "(- p\<^sup>2 - q\<^sup>2) / 72 \<le> 0" by (simp add: divide_le_0_iff)
    then have "exp ((- p\<^sup>2 - q\<^sup>2) / 72) \<le> 1" by (simp only: exp_le_one_iff)
    then show ?thesis by linarith
  qed
  show ?thesis
    using v1 q b by (simp add: init_cell_lz_def Let_def split_beta)
qed

lemma map_rng_rows_length:
  "\<forall>row \<in> set (fst (map_rng (\<lambda>y. map_rng (f y) xs) ys r)). length row = length xs"
proof (induction ys arbitrary: r)
  case Nil
  then show ?case by simp
next
  case (Cons y ys)
  then show ?case by (simp add: split_beta Let_def map_rng_length)
qed

lemma NewGame_wf: "wf_game (NewGame r)"
  using map_rng_rows_length [of init_cell "[0..<gridW]" "[0..<gridH]" r]
  by (simp add: wf_game_def wf_field_def NewGame_def Let_def map_rng_length)

lemma NewGame_lz_wf: "wf_game_lz (NewGame_lz r)"
  using map_rng_rows_length [of init_cell_lz "[0..<gridW_lz]" "[0..<gridH_lz]" r]
  by (simp add: wf_game_lz_def wf_field_lz_def NewGame_lz_def Let_def map_rng_length)

lemma init_rows_unit:
  assumes cell: "\<And>y x r. valid_rng r \<Longrightarrow>
       (0 \<le> fst (f y x r) \<and> fst (f y x r) \<le> 1) \<and> valid_rng (snd (f y x r))"
    and r: "valid_rng r"
  shows "unit_field (fst (map_rng (\<lambda>y. map_rng (f y) xs) ys r))"
proof -
  have row: "(\<forall>v \<in> set (fst (map_rng (f y) xs r)). 0 \<le> v \<and> v \<le> 1)
             \<and> valid_rng (snd (map_rng (f y) xs r))" if "valid_rng r" for y r
    using map_rng_all [of "\<lambda>v. 0 \<le> v \<and> v \<le> 1" "f y" r xs] cell that by blast
  have "(\<forall>row \<in> set (fst (map_rng (\<lambda>y. map_rng (f y) xs) ys r)). \<forall>v \<in> set row. 0 \<le> v \<and> v \<le> 1)
        \<and> valid_rng (snd (map_rng (\<lambda>y. map_rng (f y) xs) ys r))"
    using map_rng_all [of "\<lambda>row. \<forall>v \<in> set row. 0 \<le> v \<and> v \<le> 1" "\<lambda>y. map_rng (f y) xs" r ys]
      row r by blast
  then show ?thesis by (simp add: unit_field_def)
qed

lemma NewGame_unit: "valid_rng r \<Longrightarrow> unit_field (A (NewGame r))"
  using init_rows_unit [of init_cell r "[0..<gridW]" "[0..<gridH]"] init_cell_unit
  by (simp add: NewGame_def Let_def)

lemma NewGame_lz_unit: "valid_rng r \<Longrightarrow> unit_field (A_lz (NewGame_lz r))"
  using init_rows_unit [of init_cell_lz r "[0..<gridW_lz]" "[0..<gridH_lz]"] init_cell_lz_unit
  by (simp add: NewGame_lz_def Let_def)

subsection \<open>The tick of \<^verbatim>\<open>Lenia2.main.go\<close>\<close>

lemma sum_l2_sum:
  "sum_l2 F j i =
     (\<Sum>dy\<leftarrow>[- RConv..RConv]. \<Sum>dx\<leftarrow>[- RConv..RConv].
        F ! nat ((int j + dy) mod int height_l2) ! nat ((int i + dx) mod int width_l2) * kernel_l2 dx dy)"
proof -
  let ?cell = "\<lambda>dy dx. F ! nat ((int j + dy) mod int height_l2)
                        ! nat ((int i + dx) mod int width_l2) * kernel_l2 dx dy"
  have R: "RConv = 7" by (simp add: RConv_def R_l2_def)
  have idx: "(int n + d + int m) smod int m = (int n + d) mod int m"
    if "d \<in> set [- RConv..RConv]" "m = 256" for n m d
  proof -
    from that have d: "- 7 \<le> d" by (simp only: R set_upto) simp
    then have "0 \<le> int n + d + int m" using that(2) by simp
    then have "(int n + d + int m) smod int m = (int n + d + int m) mod int m"
      using that(2) by (simp add: smod_nonneg)
    then show ?thesis by simp
  qed
  have inner: "fold (\<lambda>dx s.
         (let ni = (int i + dx + int width_l2) smod int width_l2;
              nj = (int j + dy + int height_l2) smod int height_l2;
              k = kernel_l2 dx dy
          in s + F ! nat nj ! nat ni * k)) [- RConv..RConv]
        = (\<lambda>s. s + (\<Sum>dx\<leftarrow>[- RConv..RConv]. ?cell dy dx))"
    if dy: "dy \<in> set [- RConv..RConv]" for dy
  proof (rule ext)
    fix s
    have "fold (\<lambda>dx s.
         (let ni = (int i + dx + int width_l2) smod int width_l2;
              nj = (int j + dy + int height_l2) smod int height_l2;
              k = kernel_l2 dx dy
          in s + F ! nat nj ! nat ni * k)) [- RConv..RConv] s
        = fold (\<lambda>dx s. s + ?cell dy dx) [- RConv..RConv] s"
      by (rule fold_cong)
        (simp_all add: Let_def idx [OF _ width_l2_def] idx [OF dy height_l2_def])
    then show "fold (\<lambda>dx s.
         (let ni = (int i + dx + int width_l2) smod int width_l2;
              nj = (int j + dy + int height_l2) smod int height_l2;
              k = kernel_l2 dx dy
          in s + F ! nat nj ! nat ni * k)) [- RConv..RConv] s
        = s + (\<Sum>dx\<leftarrow>[- RConv..RConv]. ?cell dy dx)"
      by (simp only: fold_add_sum_list)
  qed
  have "sum_l2 F j i
        = fold (\<lambda>dy s. s + (\<Sum>dx\<leftarrow>[- RConv..RConv]. ?cell dy dx)) [- RConv..RConv] 0"
    unfolding sum_l2_def
    by (rule fold_cong) (simp_all only: inner)
  then show ?thesis by (simp only: fold_add_sum_list add_0)
qed

lemma next_value_l2_clamp:
  "next_value_l2 F j i = clamp (F ! j ! i + dt_l2 * growth_l2 (sum_l2 F j i)) 0 1"
  by (simp add: next_value_l2_def clamp_def Let_def)

lemma updateField_eq:
  "updateField F = map (\<lambda>j. map (next_value_l2 F j) [0..<width_l2]) [0..<height_l2]"
  using fill_rows [of "replicate height_l2 (replicate width_l2 0)" width_l2 height_l2 "next_value_l2 F"]
  by (simp add: updateField_def Let_def)

subsection \<open>Cyclic shifts\<close>

lemma shift_field_nth:
  "y < gridH \<Longrightarrow> x < gridW \<Longrightarrow>
   shift_field sx sy F ! y ! x = F ! nat ((int y - sy) mod int gridH) ! nat ((int x - sx) mod int gridW)"
  by (simp add: shift_field_def)

lemma shift_wf: "wf_field (shift_field sx sy F)"
  by (simp add: shift_field_def wf_field_def)

lemma torus_index:
  "0 < m \<Longrightarrow> nat ((int (nat ((p + d) mod m)) - s) mod m) = nat ((int (nat ((p - s) mod m)) + d) mod m)"
proof -
  assume m: "0 < m"
  have "(int (nat ((p + d) mod m)) - s) mod m = ((p + d) mod m - s) mod m"
    using m by simp
  also have "\<dots> = (p + d - s) mod m" by (simp add: mod_diff_left_eq)
  also have "\<dots> = (p - s + d) mod m" by (simp add: algebra_simps)
  also have "\<dots> = ((p - s) mod m + d) mod m" by (simp only: mod_add_left_eq)
  also have "\<dots> = (int (nat ((p - s) mod m)) + d) mod m" using m by simp
  finally show ?thesis by simp
qed

lemma torus_index_less: "0 < m \<Longrightarrow> nat (p mod int m) < m"
  by (simp add: nat_less_iff)

subsection \<open>The parameter modulation\<close>

lemma modulate_range:
  "0.01 \<le> Mu (modulate l gen) \<and> Mu (modulate l gen) \<le> 1
   \<and> 0.001 \<le> Sigma (modulate l gen) \<and> Sigma (modulate l gen) \<le> 1"
  by (simp add: modulate_def Let_def clamp_def)

subsection \<open>The sparse kernel\<close>

lemma kernel_body_skip: "R < 0 \<Longrightarrow> kernel_body R j i acc = acc"
proof -
  assume "R < 0"
  moreover have "0 \<le> sqrt ((of_int i)\<^sup>2 + (of_int j)\<^sup>2 :: real)" by simp
  ultimately have "\<not> sqrt ((of_int i)\<^sup>2 + (of_int j)\<^sup>2) \<le> R" by linarith
  then show ?thesis by (simp add: kernel_body_def Let_def)
qed

lemma fold_id: "fold (\<lambda>_ a. a) xs a = a"
  by (induction xs) simp_all

lemma buildKernel_negative: "R < 0 \<Longrightarrow> buildKernel R = ([], 1)"
  by (simp add: buildKernel_def kernel_body_skip fold_id Let_def)

lemma buildKernel_lz_negative:
  "R < 0 \<Longrightarrow> buildKernel_lz R = replicate gridH_lz (replicate gridW_lz 0)"
proof -
  assume R: "R < 0"
  have "\<not> sqrt (p\<^sup>2 + q\<^sup>2) \<le> R" for p q :: real
  proof -
    have "0 \<le> sqrt (p\<^sup>2 + q\<^sup>2)" by simp
    with R show ?thesis by linarith
  qed
  then show ?thesis
    by (simp add: buildKernel_lz_def Let_def map_replicate_const)
qed

lemma activity_empty: "kernel g = [] \<Longrightarrow> activity g y x = 0"
  by (simp add: activity_def)

lemma Kc_pos: "0 < Kc t"
  by (simp add: Kc_def Let_def)

lemma kernel_body_inv: "kernel_inv acc \<Longrightarrow> kernel_inv (kernel_body R j i acc)"
  by (auto simp add: kernel_inv_def kernel_body_def Let_def Kc_pos)

lemma fold_inv:
  "(\<And>i a. P a \<Longrightarrow> P (f i a)) \<Longrightarrow> P a \<Longrightarrow> P (fold f xs a)"
  by (induction xs arbitrary: a) simp_all

lemma fold_reach:
  "(\<And>i a. P a \<Longrightarrow> P (f i a)) \<Longrightarrow> i0 \<in> set xs \<Longrightarrow> (\<And>a. P (f i0 a)) \<Longrightarrow> P (fold f xs a)"
proof (induction xs arbitrary: a)
  case Nil
  then show ?case by simp
next
  case (Cons x xs)
  show ?case
  proof (cases "x = i0")
    case True
    have "P (f i0 a)" by (rule Cons.prems(3))
    then have "P (fold f xs (f i0 a))" using Cons.prems(1) by (rule fold_inv [rotated])
    then show ?thesis using True by simp
  next
    case False
    then have "i0 \<in> set xs" using Cons.prems(2) by simp
    then show ?thesis using Cons.IH [OF Cons.prems(1) _ Cons.prems(3)] by simp
  qed
qed

lemma kernel_body_nonempty: "fst acc \<noteq> [] \<Longrightarrow> fst (kernel_body R j i acc) \<noteq> []"
  by (simp add: kernel_body_def Let_def)

lemma kernel_body_centre: "0 \<le> R \<Longrightarrow> fst (kernel_body R 0 0 acc) \<noteq> []"
  by (simp add: kernel_body_def Let_def)

lemma sum_list_pos_weights:
  "xs \<noteq> [] \<Longrightarrow> \<forall>e \<in> set xs. 0 < f e \<Longrightarrow> 0 < sum_list (map f xs)" for f :: "'a \<Rightarrow> real"
proof (cases xs)
  case Nil
  assume "xs \<noteq> []"
  with Nil show ?thesis by simp
next
  case (Cons e es)
  assume pos: "\<forall>e \<in> set xs. 0 < f e"
  then have "0 \<le> sum_list (map f es)"
    using Cons by (intro sum_list_nonneg) (auto simp add: less_imp_le)
  moreover have "0 < f e" using pos Cons by simp
  ultimately show ?thesis using Cons by simp
qed

lemma sparse_kernel_normalized:
  assumes "0 < R"
  shows "sum_list (map w (fst (buildKernel R))) = 1"
proof -
  let ?Ri = "\<lceil>R\<rceil>"
  let ?inner = "\<lambda>j acc. fold (\<lambda>i acc. kernel_body R j i acc) [- ?Ri..?Ri] acc"
  let ?acc = "fold ?inner [- ?Ri..?Ri] ([], 0)"
  have Ri: "0 < ?Ri" using assms by simp
  then have zero: "0 \<in> set [- ?Ri..?Ri]" by simp
  have inv: "kernel_inv ?acc"
    by (intro fold_inv [where P = kernel_inv] kernel_body_inv) (simp_all add: kernel_inv_def)
  have ne: "fst ?acc \<noteq> []"
  proof (rule fold_reach [where P = "\<lambda>a. fst a \<noteq> []" and ?i0.0 = 0, OF _ zero])
    fix j and a :: "KernelEntry list \<times> real"
    assume "fst a \<noteq> []"
    then show "fst (?inner j a) \<noteq> []"
      by (intro fold_inv [where P = "\<lambda>a. fst a \<noteq> []"] kernel_body_nonempty)
  next
    fix a :: "KernelEntry list \<times> real"
    show "fst (?inner 0 a) \<noteq> []"
      using assms
      by (intro fold_reach [where P = "\<lambda>a. fst a \<noteq> []" and ?i0.0 = 0, OF _ zero]
          kernel_body_nonempty kernel_body_centre) simp_all
  qed
  have "0 < sum_list (map w (fst ?acc))"
    using inv ne by (intro sum_list_pos_weights) (simp_all add: kernel_inv_def)
  then have S: "snd ?acc \<noteq> 0" using inv by (simp add: kernel_inv_def)
  have "sum_list (map w (fst (buildKernel R)))
        = (\<Sum>e\<leftarrow>fst ?acc. w e * (1 / snd ?acc))"
    by (simp add: buildKernel_def Let_def comp_def)
  also have "\<dots> = sum_list (map w (fst ?acc)) * (1 / snd ?acc)"
    by (simp only: sum_list_mult_const)
  also have "\<dots> = 1" using S inv by (simp add: kernel_inv_def)
  finally show ?thesis .
qed

subsection \<open>The dense kernel\<close>

lemma sqrt_9: "sqrt 9 = 3"
proof -
  have "sqrt ((3::real)\<^sup>2) = 3" by (simp only: real_sqrt_abs abs_numeral)
  then show ?thesis by simp
qed

lemma buildKernel_lz_nth:
  "y < gridH_lz \<Longrightarrow> x < gridW_lz \<Longrightarrow>
   buildKernel_lz R ! y ! x =
     (let d = sqrt ((of_int (int x - 64))\<^sup>2 + (of_int (int y - 64))\<^sup>2) in
      if d \<le> R then exp (- 0.5 * ((d / R - 0.5) / 0.15) ^ 2) else 0)"
  by (simp add: buildKernel_lz_def Let_def gridW_lz_def gridH_lz_def)

lemma ring_cells:
  "buildKernel_lz 6 ! 64 ! 61 = 1" "buildKernel_lz 6 ! 64 ! 67 = 1"
  "buildKernel_lz 6 ! 61 ! 64 = 1" "buildKernel_lz 6 ! 67 ! 64 = 1"
  by (simp_all add: buildKernel_lz_nth gridW_lz_def gridH_lz_def sqrt_9)

lemma buildKernel_lz_nonneg:
  "y < gridH_lz \<Longrightarrow> x < gridW_lz \<Longrightarrow> 0 \<le> buildKernel_lz R ! y ! x"
  by (simp add: buildKernel_lz_nth Let_def)

lemma buildKernel_lz_wf: "wf_field_lz (buildKernel_lz R)"
  by (simp add: buildKernel_lz_def Let_def wf_field_lz_def)

lemma grid_mass:
  assumes "wf_field_lz K"
  shows "kernel_mass K = (\<Sum>y<gridH_lz. \<Sum>x<gridW_lz. K ! y ! x)"
proof -
  have len: "length K = gridH_lz" using assms by (simp add: wf_field_lz_def)
  have row: "sum_list (K ! y) = (\<Sum>x<gridW_lz. K ! y ! x)" if "y < gridH_lz" for y
  proof -
    have "length (K ! y) = gridW_lz" using assms that by (simp add: wf_field_lz_def)
    then show ?thesis by (simp add: sum_list_sum_nth atLeast0LessThan)
  qed
  have "kernel_mass K = (\<Sum>y<gridH_lz. sum_list (K ! y))"
    using len by (simp add: kernel_mass_def sum_list_sum_nth atLeast0LessThan)
  also have "\<dots> = (\<Sum>y<gridH_lz. \<Sum>x<gridW_lz. K ! y ! x)"
    by (rule sum.cong) (simp_all add: row)
  finally show ?thesis .
qed

lemma buildKernel_lz_mass: "4 \<le> kernel_mass (buildKernel_lz 6)"
proof -
  let ?K = "buildKernel_lz 6"
  let ?row = "\<lambda>y. \<Sum>x<gridW_lz. ?K ! y ! x"
  have row_nonneg: "0 \<le> ?row y" if "y < gridH_lz" for y
    using that by (intro sum_nonneg) (simp add: buildKernel_lz_nonneg)
  have sub: "sum (\<lambda>x. ?K ! y ! x) X \<le> ?row y" if "y < gridH_lz" "X \<subseteq> {..<gridW_lz}" for y X
    using that by (intro sum_mono2) (auto simp add: buildKernel_lz_nonneg)
  have "sum (\<lambda>x. ?K ! 61 ! x) {64} \<le> ?row 61" "sum (\<lambda>x. ?K ! 64 ! x) {61, 67} \<le> ?row 64"
    "sum (\<lambda>x. ?K ! 67 ! x) {64} \<le> ?row 67"
    by (rule sub; simp add: gridH_lz_def gridW_lz_def)+
  then have rows: "1 \<le> ?row 61" "2 \<le> ?row 64" "1 \<le> ?row 67"
    by (simp_all add: ring_cells)
  have "sum ?row {61, 64, 67} \<le> sum ?row {..<gridH_lz}"
    by (intro sum_mono2) (auto simp add: row_nonneg gridH_lz_def)
  then have "4 \<le> sum ?row {..<gridH_lz}" using rows by simp
  then show ?thesis by (simp add: grid_mass [OF buildKernel_lz_wf])
qed

subsection \<open>The first seeded cell, and the modulated parameters over many ticks\<close>

lemma map_rng_first: "fst (map_rng f (i # is) r) ! 0 = fst (f i r)"
  by (simp add: split_beta Let_def)

lemma NewGame_corner: "A (NewGame r) ! 0 ! 0 = fst (init_cell 0 0 r)"
proof -
  have W: "[0..<gridW] = 0 # [1..<gridW]" and H: "[0..<gridH] = 0 # [1..<gridH]"
    by (simp_all add: gridW_def gridH_def upt_conv_Cons)
  show ?thesis
    unfolding NewGame_def Let_def W H
    by (simp add: split_beta Let_def)
qed

lemma NewGame_lz_corner: "A_lz (NewGame_lz r) ! 0 ! 0 = fst (init_cell_lz 0 0 r)"
proof -
  have W: "[0..<gridW_lz] = 0 # [1..<gridW_lz]" and H: "[0..<gridH_lz] = 0 # [1..<gridH_lz]"
    by (simp_all add: gridW_lz_def gridH_lz_def upt_conv_Cons)
  show ?thesis
    unfolding NewGame_lz_def Let_def W H
    by (simp add: split_beta Let_def)
qed

lemma init_cell_hit: "r 0 < 0.001 \<Longrightarrow> fst (init_cell y x r) = r 1 * 0.8 + 0.1"
  by (simp add: init_cell_def Let_def split_beta Float64_def)

lemma init_cell_lz_hit: "r 0 < 0.002 \<Longrightarrow> fst (init_cell_lz y x r) = r 1"
  by (simp add: init_cell_lz_def Let_def split_beta Float64_def)

lemma NewGame_depends_on_draws: "A (NewGame (\<lambda>_. 1 / 2000)) \<noteq> A (NewGame (\<lambda>_. 1 / 4000))"
proof -
  have "A (NewGame (\<lambda>_. 1 / 2000)) ! 0 ! 0 \<noteq> A (NewGame (\<lambda>_. 1 / 4000)) ! 0 ! 0"
    by (simp add: NewGame_corner init_cell_hit)
  then show ?thesis by auto
qed

lemma modulator_steps:
  "lorenz g1 = lorenz g2 \<Longrightarrow> genome g1 = genome g2 \<Longrightarrow>
   genome ((step_lz ^^ n) g1) = genome ((step_lz ^^ n) g2)
   \<and> lorenz ((step_lz ^^ n) g1) = lorenz ((step_lz ^^ n) g2)"
  by (induction n) (simp_all add: step_lz_other)

subsection \<open>Sums of roots of unity\<close>

lemma unit_root_sum_int:
  assumes "0 < n"
  shows "(\<Sum>k<n. cis (2 * pi * (real k * of_int m) / real n))
         = (if int n dvd m then of_nat n else 0)"
proof -
  let ?a = "cis (2 * pi * of_int m / real n)"
  have n: "0 < real n" using assms by simp
  have pw: "cis (2 * pi * (real k * of_int m) / real n) = ?a ^ k" for k
    by (simp add: DeMoivre algebra_simps)
  have "?a ^ n = cis (2 * pi * of_int m)"
    using assms by (simp add: DeMoivre)
  also have "\<dots> = 1"
    by (simp add: complex_eq_iff cos_int_2pin sin_int_2pin)
  finally have an: "?a ^ n = 1" .
  show ?thesis
  proof (cases "int n dvd m")
    case True
    then obtain q where q: "m = int n * q" by (rule dvdE)
    have "2 * pi * of_int m / real n = 2 * pi * of_int q"
      using n by (simp add: q)
    then have "?a = 1"
      by (simp add: complex_eq_iff cos_int_2pin sin_int_2pin)
    then have "(\<Sum>k<n. ?a ^ k) = of_nat n" by simp
    then show ?thesis using True by (simp only: pw if_True)
  next
    case False
    have a: "?a \<noteq> 1"
    proof
      assume "?a = 1"
      then have "cos (2 * pi * of_int m / real n) = 1" by (simp add: complex_eq_iff)
      then obtain q :: int where q: "2 * pi * of_int m / real n = of_int q * 2 * pi"
        using cos_one_2pi_int by blast
      have "2 * pi * of_int m = of_int q * 2 * pi * real n"
        using q n by (simp add: field_simps)
      then have "(2 * pi) * of_int m = (2 * pi) * (of_int q * real n)"
        by (simp add: algebra_simps)
      then have "(of_int m :: real) = of_int q * real n"
        by (simp only: mult_cancel_left) simp
      then have "m = q * int n" by (metis of_int_mult of_int_of_nat_eq of_int_eq_iff)
      then show False using False by simp
    qed
    have "(\<Sum>k<n. ?a ^ k) = (?a ^ n - 1) / (?a - 1)"
      using a by (rule geometric_sum)
    then have "(\<Sum>k<n. ?a ^ k) = 0" using an by simp
    then show ?thesis using False by (simp only: pw if_False)
  qed
qed

lemma sum_row_major:
  fixes F :: "nat \<Rightarrow> nat \<Rightarrow> 'a::comm_monoid_add"
  shows "(\<Sum>j<H * W. F (j div W) (j mod W)) = (\<Sum>y<H. \<Sum>x<W. F y x)"
proof (cases "W = 0")
  case True
  then show ?thesis by simp
next
  case False
  show ?thesis
  proof (induction H)
    case 0
    then show ?case by simp
  next
    case (Suc H)
    have "(\<Sum>j<Suc H * W. F (j div W) (j mod W))
          = (\<Sum>j = 0..<H * W. F (j div W) (j mod W)) + (\<Sum>j = H * W..<H * W + W. F (j div W) (j mod W))"
      by (simp add: atLeast0LessThan [symmetric] sum.atLeastLessThan_concat add.commute)
    also have "(\<Sum>j = H * W..<H * W + W. F (j div W) (j mod W))
               = (\<Sum>x = 0..<W. F ((x + H * W) div W) ((x + H * W) mod W))"
      using sum.shift_bounds_nat_ivl [of "\<lambda>j. F (j div W) (j mod W)" 0 "H * W" W]
      by (simp add: add.commute)
    also have "\<dots> = (\<Sum>x = 0..<W. F H x)"
      using False by (intro sum.cong) simp_all
    finally show ?case using Suc by (simp add: atLeast0LessThan)
  qed
qed

lemma grid_root_sum_int:
  assumes "0 < H" "0 < W"
  shows "(\<Sum>k<H * W. cis (2 * pi * (real (k div W) * of_int m1) / real H
                            + 2 * pi * (real (k mod W) * of_int m2) / real W))
         = (if int H dvd m1 \<and> int W dvd m2 then of_nat (H * W) else 0)"
proof -
  let ?P = "\<lambda>y. cis (2 * pi * (real y * of_int m1) / real H)"
  let ?Q = "\<lambda>x. cis (2 * pi * (real x * of_int m2) / real W)"
  have "(\<Sum>k<H * W. cis (2 * pi * (real (k div W) * of_int m1) / real H
                            + 2 * pi * (real (k mod W) * of_int m2) / real W))
        = (\<Sum>k<H * W. ?P (k div W) * ?Q (k mod W))"
    by (simp only: cis_mult)
  also have "\<dots> = (\<Sum>y<H. \<Sum>x<W. ?P y * ?Q x)"
    by (rule sum_row_major)
  also have "\<dots> = (\<Sum>y<H. ?P y) * (\<Sum>x<W. ?Q x)"
    by (simp only: sum_product)
  also have "\<dots> = (if int H dvd m1 then of_nat H else 0) * (if int W dvd m2 then of_nat W else 0)"
    by (simp only: unit_root_sum_int [OF assms(1)] unit_root_sum_int [OF assms(2)])
  also have "\<dots> = (if int H dvd m1 \<and> int W dvd m2 then of_nat (H * W) else 0)"
    by simp
  finally show ?thesis .
qed

lemma phase_combine:
  assumes "0 < H" "0 < W"
  shows "cis (- dft_phase H W k a) * cis (- dft_phase H W k b) * cis (dft_phase H W k j)
         = cis (2 * pi * (real (k div W) * of_int (int (j div W) - int (a div W) - int (b div W))) / real H
                + 2 * pi * (real (k mod W) * of_int (int (j mod W) - int (a mod W) - int (b mod W))) / real W)"
proof -
  have "- dft_phase H W k a + - dft_phase H W k b + dft_phase H W k j
        = 2 * pi * (real (k div W) * of_int (int (j div W) - int (a div W) - int (b div W))) / real H
          + 2 * pi * (real (k mod W) * of_int (int (j mod W) - int (a mod W) - int (b mod W))) / real W"
    by (simp add: dft_phase_def algebra_simps diff_divide_distrib add_divide_distrib)
  then show ?thesis by (simp only: cis_mult)
qed

lemma torus_sub_less:
  assumes "0 < H" "0 < W"
  shows "torus_sub H W j b < H * W"
proof -
  let ?p = "nat ((int (j div W) - int (b div W)) mod int H)"
  let ?q = "nat ((int (j mod W) - int (b mod W)) mod int W)"
  have p: "?p < H" and q: "?q < W" using assms by (simp_all add: nat_less_iff)
  have "?p * W + ?q < ?p * W + W" using q by simp
  also have "\<dots> = Suc ?p * W" by simp
  also have "\<dots> \<le> H * W" using p by (intro mult_le_mono1) simp
  finally show ?thesis by (simp add: torus_sub_def)
qed

lemma torus_sub_unique:
  assumes "0 < H" "0 < W" "a < H * W"
  shows "(int H dvd int (j div W) - int (a div W) - int (b div W)
          \<and> int W dvd int (j mod W) - int (a mod W) - int (b mod W))
         \<longleftrightarrow> a = torus_sub H W j b"
proof -
  let ?p = "nat ((int (j div W) - int (b div W)) mod int H)"
  let ?q = "nat ((int (j mod W) - int (b mod W)) mod int W)"
  have p: "?p < H" and q: "?q < W" using assms by (simp_all add: nat_less_iff)
  have a1: "a div W < H" using assms by (simp add: less_mult_imp_div_less)
  have a2: "a mod W < W" using assms by simp
  have res: "int n dvd d - int c \<longleftrightarrow> c = nat (d mod int n)" if "c < n" for n c d
  proof
    assume "int n dvd d - int c"
    then have "d mod int n = int c mod int n"
      by (simp add: mod_eq_dvd_iff)
    also have "\<dots> = int c" using that by simp
    finally show "c = nat (d mod int n)" by simp
  next
    assume c: "c = nat (d mod int n)"
    have "0 \<le> d mod int n" using that by simp
    then have "int c = d mod int n" using c by simp
    then show "int n dvd d - int c" by (simp add: mod_eq_dvd_iff [symmetric])
  qed
  have d1: "int (j div W) - int (a div W) - int (b div W) = (int (j div W) - int (b div W)) - int (a div W)"
    and d2: "int (j mod W) - int (a mod W) - int (b mod W) = (int (j mod W) - int (b mod W)) - int (a mod W)"
    by simp_all
  have "(int H dvd int (j div W) - int (a div W) - int (b div W)
          \<and> int W dvd int (j mod W) - int (a mod W) - int (b mod W))
        \<longleftrightarrow> a div W = ?p \<and> a mod W = ?q"
    unfolding d1 d2 by (simp only: res [OF a1] res [OF a2])
  also have "\<dots> \<longleftrightarrow> a = ?p * W + ?q"
  proof
    assume "a div W = ?p \<and> a mod W = ?q"
    then show "a = ?p * W + ?q" by (metis div_mult_mod_eq)
  next
    assume "a = ?p * W + ?q"
    then show "a div W = ?p \<and> a mod W = ?q" using q by simp
  qed
  finally show ?thesis by (simp add: torus_sub_def)
qed

subsection \<open>The transform strategy is a cyclic convolution\<close>

lemma activity_direct_U: "activity g y x = direct_U gridW gridH (kernel g) (A g) y x"
  by (simp add: activity_def direct_U_def)

lemma concat_nth_row_major:
  assumes "0 < W"
  shows "\<forall>xs \<in> set xss. length xs = W \<Longrightarrow> j < length xss * W \<Longrightarrow>
         concat xss ! j = xss ! (j div W) ! (j mod W)"
proof (induction xss arbitrary: j)
  case Nil
  then show ?case by simp
next
  case (Cons xs xss)
  have len: "length xs = W" using Cons.prems(1) by simp
  show ?case
  proof (cases "j < W")
    case True
    then show ?thesis using len by (simp add: nth_append)
  next
    case False
    then have ge: "W \<le> j" by simp
    have "j - W < length xss * W" using Cons.prems(2) ge by simp
    then have "concat xss ! (j - W) = xss ! ((j - W) div W) ! ((j - W) mod W)"
      using Cons.IH Cons.prems(1) by simp
    moreover have "j div W = Suc ((j - W) div W)" using assms ge by (rule le_div_geq)
    moreover have "j mod W = (j - W) mod W" using ge by (rule le_mod_geq)
    ultimately show ?thesis using False len by (simp add: nth_append)
  qed
qed

lemma flatten_nth:
  assumes "wf_field_lz F" "j < gridH_lz * gridW_lz"
  shows "flatten F ! j = Complex (F ! (j div gridW_lz) ! (j mod gridW_lz)) 0"
proof -
  have W: "0 < gridW_lz" and H: "0 < gridH_lz" by (simp_all add: gridW_lz_def gridH_lz_def)
  have len: "length F = gridH_lz" and row0: "length (F ! 0) = gridW_lz"
    using assms(1) H by (simp_all add: wf_field_lz_def)
  let ?rows = "map (\<lambda>y. map (\<lambda>x. Complex (F ! y ! x) 0) [0..<gridW_lz]) [0..<gridH_lz]"
  have jd: "j div gridW_lz < gridH_lz"
    using assms(2) W by (simp add: less_mult_imp_div_less)
  have "flatten F ! j = concat ?rows ! j"
    by (simp add: flatten_def len row0)
  also have "\<dots> = ?rows ! (j div gridW_lz) ! (j mod gridW_lz)"
    using assms(2) by (intro concat_nth_row_major [OF W]) auto
  also have "\<dots> = Complex (F ! (j div gridW_lz) ! (j mod gridW_lz)) 0"
    using jd W by simp
  finally show ?thesis .
qed

lemma flatten_length: "wf_field_lz F \<Longrightarrow> length (flatten F) = gridH_lz * gridW_lz"
proof -
  assume wf: "wf_field_lz F"
  have H: "0 < gridH_lz" by (simp add: gridH_lz_def)
  have len: "length F = gridH_lz" and row0: "length (F ! 0) = gridW_lz"
    using wf H by (simp_all add: wf_field_lz_def)
  have "sum_list (map (\<lambda>y. gridW_lz) [0..<gridH_lz]) = gridH_lz * gridW_lz"
    by (simp add: sum_list_triv)
  then show ?thesis
    by (simp add: flatten_def len row0 length_concat comp_def)
qed

lemma Coefficients_nth:
  "k < H * W \<Longrightarrow>
   Coefficients (NewFFT2 H W) xs ! k = (\<Sum>j<H * W. xs ! j * cis (- dft_phase H W k j))"
  by (simp add: NewFFT2_def)

lemma Coefficients_length: "length (Coefficients (NewFFT2 H W) xs) = H * W"
  by (simp add: NewFFT2_def)

lemma Sequence_nth:
  "j < H * W \<Longrightarrow>
   Sequence (NewFFT2 H W) cs ! j = (\<Sum>k<H * W. cs ! k * cis (dft_phase H W k j)) / of_nat (H * W)"
  by (simp add: NewFFT2_def)

lemma ones_wf: "wf_field_lz ones_lz"
  by (simp add: ones_lz_def wf_field_lz_def)

lemma transform_convolution:
  assumes H: "0 < H" and W: "0 < W" and j: "j < H * W"
  shows "Sequence (NewFFT2 H W)
           (map (\<lambda>i. Coefficients (NewFFT2 H W) xs ! i * Coefficients (NewFFT2 H W) ks ! i)
              [0..<H * W]) ! j
         = (\<Sum>b<H * W. ks ! b * xs ! torus_sub H W j b)"
proof -
  let ?N = "H * W"
  let ?E = "\<lambda>k a. cis (- dft_phase H W k a)"
  let ?C = "\<lambda>k a b. ?E k a * ?E k b * cis (dft_phase H W k j)"
  let ?prod = "map (\<lambda>i. Coefficients (NewFFT2 H W) xs ! i * Coefficients (NewFFT2 H W) ks ! i) [0..<?N]"
  have N: "0 < ?N" using H W by simp
  have prod: "?prod ! k * cis (dft_phase H W k j) = (\<Sum>a<?N. \<Sum>b<?N. xs ! a * ks ! b * ?C k a b)"
    if "k < ?N" for k
  proof -
    have "?prod ! k = (\<Sum>a<?N. xs ! a * ?E k a) * (\<Sum>b<?N. ks ! b * ?E k b)"
      using that by (simp add: Coefficients_nth)
    also have "\<dots> = (\<Sum>a<?N. \<Sum>b<?N. (xs ! a * ?E k a) * (ks ! b * ?E k b))"
      by (rule sum_product)
    finally have "?prod ! k * cis (dft_phase H W k j)
          = (\<Sum>a<?N. \<Sum>b<?N. (xs ! a * ?E k a) * (ks ! b * ?E k b) * cis (dft_phase H W k j))"
      by (simp only: sum_distrib_right)
    also have "\<dots> = (\<Sum>a<?N. \<Sum>b<?N. xs ! a * ks ! b * ?C k a b)"
      by (intro sum.cong refl) (simp add: mult_ac)
    finally show ?thesis .
  qed
  have inner: "(\<Sum>k<?N. ?C k a b) = (if a = torus_sub H W j b then of_nat ?N else 0)"
    if "a < ?N" for a b
  proof -
    have "(\<Sum>k<?N. ?C k a b)
          = (if int H dvd int (j div W) - int (a div W) - int (b div W)
                \<and> int W dvd int (j mod W) - int (a mod W) - int (b mod W)
             then of_nat ?N else 0)"
      by (simp only: phase_combine [OF H W] grid_root_sum_int [OF H W])
    then show ?thesis by (simp only: torus_sub_unique [OF H W that])
  qed
  have "(\<Sum>k<?N. ?prod ! k * cis (dft_phase H W k j))
        = (\<Sum>k<?N. \<Sum>a<?N. \<Sum>b<?N. xs ! a * ks ! b * ?C k a b)"
    by (rule sum.cong) (simp_all only: prod lessThan_iff)
  also have "\<dots> = (\<Sum>a<?N. \<Sum>k<?N. \<Sum>b<?N. xs ! a * ks ! b * ?C k a b)"
    by (rule sum.swap)
  also have "\<dots> = (\<Sum>a<?N. \<Sum>b<?N. \<Sum>k<?N. xs ! a * ks ! b * ?C k a b)"
    by (rule sum.cong [OF refl]) (rule sum.swap)
  also have "\<dots> = (\<Sum>a<?N. \<Sum>b<?N. xs ! a * ks ! b * (\<Sum>k<?N. ?C k a b))"
    by (simp only: sum_distrib_left)
  also have "\<dots> = (\<Sum>a<?N. \<Sum>b<?N. if a = torus_sub H W j b then xs ! a * ks ! b * of_nat ?N else 0)"
    by (intro sum.cong refl) (simp add: inner)
  also have "\<dots> = (\<Sum>b<?N. \<Sum>a<?N. if a = torus_sub H W j b then xs ! a * ks ! b * of_nat ?N else 0)"
    by (rule sum.swap)
  also have "\<dots> = (\<Sum>b<?N. xs ! torus_sub H W j b * ks ! b * of_nat ?N)"
    by (intro sum.cong refl) (simp add: sum.delta torus_sub_less [OF H W])
  also have "\<dots> = (\<Sum>b<?N. (ks ! b * xs ! torus_sub H W j b) * of_nat ?N)"
    by (intro sum.cong refl) (simp only: mult_ac)
  also have "\<dots> = (\<Sum>b<?N. ks ! b * xs ! torus_sub H W j b) * of_nat ?N"
    by (simp only: sum_distrib_right)
  finally have "(\<Sum>k<?N. ?prod ! k * cis (dft_phase H W k j)) / of_nat ?N
                = (\<Sum>b<?N. ks ! b * xs ! torus_sub H W j b)"
    using N by simp
  then show ?thesis using j by (simp only: Sequence_nth)
qed

lemma torus_sub_cell:
  assumes "0 < W" "x < W" "b < H * W"
  shows "torus_sub H W (y * W + x) b div W = nat ((int y - int (b div W)) mod int H)"
    and "torus_sub H W (y * W + x) b mod W = nat ((int x - int (b mod W)) mod int W)"
proof -
  have q: "nat ((int x - int (b mod W)) mod int W) < W"
    using assms(1) by (simp add: nat_less_iff)
  have j: "(y * W + x) div W = y" "(y * W + x) mod W = x" using assms by simp_all
  show "torus_sub H W (y * W + x) b div W = nat ((int y - int (b div W)) mod int H)"
    unfolding torus_sub_def j using q by simp
  show "torus_sub H W (y * W + x) b mod W = nat ((int x - int (b mod W)) mod int W)"
    unfolding torus_sub_def j using q by simp
qed

lemma activity_lz_convolution:
  assumes g: "fft2d g = NewFFT2 gridH_lz gridW_lz"
      "kernelFFT g = Coefficients (NewFFT2 gridH_lz gridW_lz) (flatten K)"
    and K: "wf_field_lz K" and F: "wf_field_lz (A_lz g)"
    and y: "y < gridH_lz" and x: "x < gridW_lz"
  shows "activity_lz g ! y ! x =
           (\<Sum>b1<gridH_lz. \<Sum>b2<gridW_lz.
              K ! b1 ! b2 * A_lz g ! nat ((int y - int b1) mod int gridH_lz)
                                   ! nat ((int x - int b2) mod int gridW_lz))"
proof -
  let ?H = gridH_lz and ?W = gridW_lz
  let ?N = "?H * ?W"
  let ?fft = "NewFFT2 ?H ?W"
  let ?j = "y * ?W + x"
  let ?state = "Coefficients ?fft (flatten (A_lz g))"
  let ?prod = "map (\<lambda>i. ?state ! i * Coefficients ?fft (flatten K) ! i) [0..<?N]"
  let ?cell = "\<lambda>b1 b2. K ! b1 ! b2 * A_lz g ! nat ((int y - int b1) mod int ?H)
                                             ! nat ((int x - int b2) mod int ?W)"
  have H: "0 < ?H" and W: "0 < ?W" by (simp_all add: gridW_lz_def gridH_lz_def)
  have j: "?j < ?N"
  proof -
    have "?j < y * ?W + ?W" using x by simp
    also have "\<dots> = Suc y * ?W" by simp
    also have "\<dots> \<le> ?N" using y by (intro mult_le_mono1) simp
    finally show ?thesis .
  qed
  have summand: "flatten K ! b * flatten (A_lz g) ! torus_sub ?H ?W ?j b
                 = of_real (?cell (b div ?W) (b mod ?W))" if b: "b < ?N" for b
  proof -
    have "flatten (A_lz g) ! torus_sub ?H ?W ?j b
          = Complex (A_lz g ! (torus_sub ?H ?W ?j b div ?W) ! (torus_sub ?H ?W ?j b mod ?W)) 0"
      using F torus_sub_less [OF H W] by (rule flatten_nth)
    moreover have "flatten K ! b = Complex (K ! (b div ?W) ! (b mod ?W)) 0"
      using K b by (rule flatten_nth)
    ultimately show ?thesis
      by (simp add: torus_sub_cell [OF W x b] complex_eq_iff)
  qed
  have "Sequence ?fft ?prod ! ?j = (\<Sum>b<?N. flatten K ! b * flatten (A_lz g) ! torus_sub ?H ?W ?j b)"
    using H W j by (rule transform_convolution)
  also have "\<dots> = (\<Sum>b<?N. of_real (?cell (b div ?W) (b mod ?W)))"
    by (rule sum.cong) (simp_all only: summand lessThan_iff)
  also have "\<dots> = (\<Sum>b1<?H. \<Sum>b2<?W. of_real (?cell b1 b2))"
    by (rule sum_row_major)
  also have "\<dots> = of_real (\<Sum>b1<?H. \<Sum>b2<?W. ?cell b1 b2)"
    by simp
  finally have conv: "Sequence ?fft ?prod ! ?j = of_real (\<Sum>b1<?H. \<Sum>b2<?W. ?cell b1 b2)" .
  have "activity_lz g ! y ! x = Re (Sequence ?fft ?prod ! ?j)"
    using y x by (simp add: activity_lz_def Let_def g reshape_def Coefficients_length mult.commute)
  then show ?thesis by (simp only: conv Re_complex_of_real)
qed

lemma activity_lz_ones:
  assumes g: "fft2d g = NewFFT2 gridH_lz gridW_lz"
      "kernelFFT g = Coefficients (NewFFT2 gridH_lz gridW_lz) (flatten K)"
      "A_lz g = ones_lz"
    and K: "wf_field_lz K"
    and y: "y < gridH_lz" and x: "x < gridW_lz"
  shows "activity_lz g ! y ! x = kernel_mass K"
proof -
  have H: "0 < gridH_lz" and W: "0 < gridW_lz" by (simp_all add: gridW_lz_def gridH_lz_def)
  have F: "wf_field_lz (A_lz g)" using g(3) ones_wf by simp
  have cell: "ones_lz ! nat (p mod int gridH_lz) ! nat (q mod int gridW_lz) = 1" for p q
    using torus_index_less [OF H, of p] torus_index_less [OF W, of q] by (simp add: ones_lz_def)
  have "activity_lz g ! y ! x
        = (\<Sum>b1<gridH_lz. \<Sum>b2<gridW_lz.
              K ! b1 ! b2 * ones_lz ! nat ((int y - int b1) mod int gridH_lz)
                                  ! nat ((int x - int b2) mod int gridW_lz))"
    using activity_lz_convolution [OF g(1) g(2) K F y x] by (simp only: g(3))
  also have "\<dots> = (\<Sum>b1<gridH_lz. \<Sum>b2<gridW_lz. K ! b1 ! b2)"
    by (simp only: cell mult_1_right)
  finally show ?thesis by (simp only: grid_mass [OF K])
qed

subsection \<open>Two test fields\<close>

lemma delta_wf: "wf_field_lz delta_lz"
  by (auto simp add: delta_lz_def wf_field_lz_def dest!: set_update_subset_insert [THEN subsetD])

lemma delta_nth:
  "p < gridH_lz \<Longrightarrow> q < gridW_lz \<Longrightarrow> delta_lz ! p ! q = (if p = 0 \<and> q = 0 then 1 else 0)"
  by (simp add: delta_lz_def nth_list_update)

lemma torus_zero:
  "c < n \<Longrightarrow> d < n \<Longrightarrow> nat ((int c - int d) mod int n) = 0 \<longleftrightarrow> d = c"
proof -
  assume c: "c < n" and d: "d < n"
  have "0 \<le> (int c - int d) mod int n" using c by simp
  then have "nat ((int c - int d) mod int n) = 0 \<longleftrightarrow> (int c - int d) mod int n = 0" by simp
  also have "\<dots> \<longleftrightarrow> int n dvd int c - int d" by (simp add: dvd_eq_mod_eq_0)
  also have "\<dots> \<longleftrightarrow> int c mod int n = int d mod int n" by (simp add: mod_eq_dvd_iff)
  also have "\<dots> \<longleftrightarrow> d = c" using c d by auto
  finally show ?thesis .
qed

lemma activity_lz_delta:
  assumes g: "fft2d g = NewFFT2 gridH_lz gridW_lz"
      "kernelFFT g = Coefficients (NewFFT2 gridH_lz gridW_lz) (flatten K)"
      "A_lz g = delta_lz"
    and K: "wf_field_lz K"
    and y: "y < gridH_lz" and x: "x < gridW_lz"
  shows "activity_lz g ! y ! x = K ! y ! x"
proof -
  have H: "0 < gridH_lz" and W: "0 < gridW_lz" by (simp_all add: gridW_lz_def gridH_lz_def)
  have F: "wf_field_lz (A_lz g)" using g(3) delta_wf by simp
  have cell: "delta_lz ! nat ((int y - int b1) mod int gridH_lz) ! nat ((int x - int b2) mod int gridW_lz)
              = (if b1 = y \<and> b2 = x then 1 else 0)"
    if "b1 < gridH_lz" "b2 < gridW_lz" for b1 b2
  proof -
    have "nat ((int y - int b1) mod int gridH_lz) < gridH_lz"
      "nat ((int x - int b2) mod int gridW_lz) < gridW_lz"
      using H W by (simp_all add: nat_less_iff)
    then show ?thesis
      using torus_zero [OF y that(1)] torus_zero [OF x that(2)] by (simp add: delta_nth)
  qed
  have "activity_lz g ! y ! x
        = (\<Sum>b1<gridH_lz. \<Sum>b2<gridW_lz.
              K ! b1 ! b2 * delta_lz ! nat ((int y - int b1) mod int gridH_lz)
                                   ! nat ((int x - int b2) mod int gridW_lz))"
    using activity_lz_convolution [OF g(1) g(2) K F y x] by (simp only: g(3))
  also have "\<dots> = (\<Sum>b1<gridH_lz. \<Sum>b2<gridW_lz. if b2 = x then (if b1 = y then K ! b1 ! b2 else 0) else 0)"
    by (intro sum.cong refl) (simp add: cell)
  also have "\<dots> = (\<Sum>b1<gridH_lz. if b1 = y then K ! b1 ! x else 0)"
    using x by (simp add: sum.delta)
  also have "\<dots> = K ! y ! x"
    using y by (simp add: sum.delta)
  finally show ?thesis .
qed

lemma kernel_body_reach:
  assumes "\<forall>e \<in> set (fst acc). \<bar>of_int (dx e)\<bar> \<le> R"
  shows "\<forall>e \<in> set (fst (kernel_body R j i acc)). \<bar>of_int (dx e)\<bar> \<le> R"
proof -
  have "sqrt ((of_int i :: real)\<^sup>2) \<le> sqrt ((of_int i)\<^sup>2 + (of_int j)\<^sup>2)"
    by (rule real_sqrt_le_mono) simp
  then have "\<bar>of_int i :: real\<bar> \<le> sqrt ((of_int i)\<^sup>2 + (of_int j)\<^sup>2)"
    by (simp only: real_sqrt_abs)
  then have "sqrt ((of_int i)\<^sup>2 + (of_int j)\<^sup>2) \<le> R \<Longrightarrow> \<bar>of_int i :: real\<bar> \<le> R"
    by linarith
  then show ?thesis using assms by (auto simp add: kernel_body_def Let_def)
qed

lemma buildKernel_reach: "\<forall>e \<in> set (fst (buildKernel R)). \<bar>of_int (dx e)\<bar> \<le> R"
proof -
  let ?P = "\<lambda>acc :: KernelEntry list \<times> real. \<forall>e \<in> set (fst acc). \<bar>of_int (dx e)\<bar> \<le> R"
  have "?P (fold (\<lambda>j acc. fold (\<lambda>i acc. kernel_body R j i acc) [- \<lceil>R\<rceil>..\<lceil>R\<rceil>] acc) [- \<lceil>R\<rceil>..\<lceil>R\<rceil>] ([], 0))"
    by (intro fold_inv [where P = ?P] kernel_body_reach) simp_all
  then show ?thesis by (simp add: buildKernel_def Let_def)
qed

lemma direct_U_delta_far:
  "direct_U gridW_lz gridH_lz (fst (buildKernel 6)) delta_lz 64 67 = 0"
proof -
  have W: "0 < int gridW_lz" and H: "0 < int gridH_lz" by (simp_all add: gridW_lz_def gridH_lz_def)
  have zero: "w k * delta_lz ! nat ((64 + dy k) mod int gridH_lz) ! nat ((67 + dx k) mod int gridW_lz) = 0"
    if "k \<in> set (fst (buildKernel 6))" for k
  proof -
    have "\<bar>of_int (dx k) :: real\<bar> \<le> 6" using buildKernel_reach that by blast
    then have "\<bar>dx k\<bar> \<le> 6" by linarith
    then have "(67 + dx k) mod int gridW_lz = 67 + dx k" by (simp add: gridW_lz_def)
    moreover have "0 < 67 + dx k" "67 + dx k < int gridW_lz" using \<open>\<bar>dx k\<bar> \<le> 6\<close> by (simp_all add: gridW_lz_def)
    moreover have "nat ((64 + dy k) mod int gridH_lz) < gridH_lz" using H by (simp add: nat_less_iff)
    ultimately show ?thesis by (simp add: delta_nth)
  qed
  have "direct_U gridW_lz gridH_lz (fst (buildKernel 6)) delta_lz 64 67
        = (\<Sum>k\<leftarrow>fst (buildKernel 6).
             w k * delta_lz ! nat ((64 + dy k) mod int gridH_lz) ! nat ((67 + dx k) mod int gridW_lz))"
    by (simp add: direct_U_def Let_def wrap_mod [OF W] wrap_mod [OF H] fold_add_sum_list)
  also have "\<dots> = (\<Sum>k\<leftarrow>fst (buildKernel 6). 0)"
    by (rule arg_cong [where f = sum_list], rule map_cong [OF refl]) (rule zero)
  finally show ?thesis by simp
qed

lemma wrap_index: "0 < m \<Longrightarrow> nat (wrap p (int m)) < m"
  by (simp add: wrap_mod nat_less_iff)

lemma direct_U_ones:
  assumes "y < gridH_lz" "x < gridW_lz"
  shows "direct_U gridW_lz gridH_lz kern ones_lz y x = sum_list (map w kern)"
proof -
  have W: "0 < gridW_lz" and H: "0 < gridH_lz" by (simp_all add: gridW_lz_def gridH_lz_def)
  have cell: "ones_lz ! nat (wrap q (int gridH_lz)) ! nat (wrap p (int gridW_lz)) = 1" for p q
    using wrap_index [OF W, of p] wrap_index [OF H, of q] by (simp add: ones_lz_def)
  show ?thesis
    by (simp add: direct_U_def Let_def cell fold_add_sum_list)
qed

section \<open>Properties of the specification\<close>

text \<open>
  C1 at two fields of the transform engine, with the kernel transform that \<^verbatim>\<open>NewGame\<close>
  of \<^verbatim>\<open>lenia_lorenz.go\<close> caches and, for the direct strategy, the kernel of the same
  radius \<open>6\<close> from the camera variant's builder.

  On the field with every cell \<open>1\<close> the transform strategy computes, in the cell \<open>(0, 0)\<close>
  as in every cell, the total weight of the dense kernel, which is at least \<open>4\<close>, where
  the direct strategy computes \<open>1\<close>: the relative error is far above \<open>10\<^sup>-\<^sup>6\<close>.

  On the field whose only non-zero cell is \<open>(0, 0)\<close> the transform strategy returns the
  dense kernel grid itself (\<open>activity_lz_delta\<close>): the activity is \<open>1\<close> in the cell
  \<open>x = 67, y = 64\<close>, half a grid away from the only live cell, where the direct
  strategy computes \<open>0\<close>. In general the transform strategy is the cyclic convolution
  with the dense grid (\<open>activity_lz_convolution\<close>), whose mass lies around the centre
  \<open>(64, 64)\<close> and not at wrapped offsets around \<open>(0, 0)\<close>.
\<close>

theorem transform_differs_from_direct:
  "activity_lz ((NewGame_lz r)\<lparr>A_lz := ones_lz\<rparr>) ! 0 ! 0 = kernel_mass (buildKernel_lz 6)
   \<and> 4 \<le> activity_lz ((NewGame_lz r)\<lparr>A_lz := ones_lz\<rparr>) ! 0 ! 0
   \<and> direct_U gridW_lz gridH_lz (fst (buildKernel 6)) ones_lz 0 0 = 1
   \<and> \<not> \<bar>activity_lz ((NewGame_lz r)\<lparr>A_lz := ones_lz\<rparr>) ! 0 ! 0
          - direct_U gridW_lz gridH_lz (fst (buildKernel 6)) ones_lz 0 0\<bar>
        \<le> 1 / 10 ^ 6 * \<bar>direct_U gridW_lz gridH_lz (fst (buildKernel 6)) ones_lz 0 0\<bar>
   \<and> activity_lz ((NewGame_lz r)\<lparr>A_lz := delta_lz\<rparr>) ! 64 ! 67 = 1
   \<and> direct_U gridW_lz gridH_lz (fst (buildKernel 6)) delta_lz 64 67 = 0"
proof -
  let ?g = "(NewGame_lz r)\<lparr>A_lz := ones_lz\<rparr>"
  let ?h = "(NewGame_lz r)\<lparr>A_lz := delta_lz\<rparr>"
  have z: "0 < gridH_lz" "0 < gridW_lz" by (simp_all add: gridW_lz_def gridH_lz_def)
  have c: "64 < gridH_lz" "67 < gridW_lz" by (simp_all add: gridW_lz_def gridH_lz_def)
  have t: "activity_lz ?g ! 0 ! 0 = kernel_mass (buildKernel_lz 6)"
    by (rule activity_lz_ones [OF _ _ _ buildKernel_lz_wf z]) (simp_all add: NewGame_lz_def Let_def)
  have d: "direct_U gridW_lz gridH_lz (fst (buildKernel 6)) ones_lz 0 0 = 1"
    by (simp add: direct_U_ones [OF z] sparse_kernel_normalized)
  have "activity_lz ?h ! 64 ! 67 = buildKernel_lz 6 ! 64 ! 67"
    by (rule activity_lz_delta [OF _ _ _ buildKernel_lz_wf c]) (simp_all add: NewGame_lz_def Let_def)
  then have k: "activity_lz ?h ! 64 ! 67 = 1" by (simp only: ring_cells)
  show ?thesis
    using buildKernel_lz_mass by (simp add: t d k direct_U_delta_far)
qed

text \<open>
  C2 at the dense builder of \<^verbatim>\<open>lenia_lorenz.go\<close> with the radius \<open>6\<close> that its
  \<^verbatim>\<open>NewGame\<close> passes: the four cells at distance \<open>3\<close> on the axes hold the weight
  \<open>1\<close> each, no weight is negative, and nothing divides by the sum, so the weights sum to
  at least \<open>4\<close> and not to \<open>1\<close> within \<open>10\<^sup>-\<^sup>9\<close>. The sparse builder of the camera
  variant does normalise (\<open>sparse_kernel_normalized\<close>).
\<close>

theorem dense_kernel_not_normalized:
  "4 \<le> kernel_mass (buildKernel_lz 6) \<and> \<not> \<bar>kernel_mass (buildKernel_lz 6) - 1\<bar> \<le> 1 / 10 ^ 9"
  using buildKernel_lz_mass by simp

text \<open>
  C3. From an initial field with all cells in \<open>[0, 1]\<close>, every cell of the field lies
  in \<open>[0, 1]\<close> after any number \<open>n\<close> of ticks, in the camera variant and in
  \<^verbatim>\<open>lenia_lorenz.go\<close> alike: each tick writes only clamped values.
\<close>

theorem clamp_invariant:
  "(wf_game g \<and> unit_field (A g) \<longrightarrow> unit_field (A ((step ^^ n) g)))
   \<and> (wf_game_lz h \<and> unit_field (A_lz h) \<longrightarrow> unit_field (A_lz ((step_lz ^^ n) h)))"
proof (intro conjI impI)
  assume a: "wf_game g \<and> unit_field (A g)"
  show "unit_field (A ((step ^^ n) g))"
  proof (cases n)
    case 0
    with a show ?thesis by simp
  next
    case (Suc k)
    have "wf_game ((step ^^ k) g)" using a by (simp add: steps_wf_game)
    then show ?thesis using Suc by (simp add: step_unit wf_game_def)
  qed
next
  assume a: "wf_game_lz h \<and> unit_field (A_lz h)"
  show "unit_field (A_lz ((step_lz ^^ n) h))"
  proof (cases n)
    case 0
    with a show ?thesis by simp
  next
    case (Suc k)
    have "wf_game_lz ((step_lz ^^ k) h)" using a by (simp add: steps_lz_wf_game)
    then show ?thesis using Suc by (simp add: step_lz_unit wf_game_lz_def)
  qed
qed

theorem clamp_invariant_witness:
  "wf_game (NewGame (\<lambda>_. 1 / 2)) \<and> unit_field (A (NewGame (\<lambda>_. 1 / 2)))
   \<and> unit_field (A ((step ^^ 1000) (NewGame (\<lambda>_. 1 / 2))))
   \<and> wf_game_lz (NewGame_lz (\<lambda>_. 1 / 2)) \<and> unit_field (A_lz (NewGame_lz (\<lambda>_. 1 / 2)))
   \<and> unit_field (A_lz ((step_lz ^^ 1000) (NewGame_lz (\<lambda>_. 1 / 2))))"
proof -
  have v: "valid_rng (\<lambda>_. 1 / 2)" by (simp add: valid_rng_def)
  show ?thesis
    using clamp_invariant [of "NewGame (\<lambda>_. 1 / 2)" 1000 "NewGame_lz (\<lambda>_. 1 / 2)"]
      NewGame_wf [of "\<lambda>_. 1 / 2"] NewGame_unit [OF v]
      NewGame_lz_wf [of "\<lambda>_. 1 / 2"] NewGame_lz_unit [OF v]
    by blast
qed

text \<open>
  C4. One tick of the camera variant writes, into every cell \<open>(x, y)\<close> of the next grid,
  \<open>clamp (current[y][x] + dt * growth (U[y][x], mu, sigma), 0, 1)\<close> with
  \<open>U[y][x]\<close> the sum of \<open>weight * current[(y + dy) mod H][(x + dx) mod W]\<close> over the
  kernel entries; the whole next grid is written, and then the grids change roles: the
  former current grid is the scratch grid of the following tick. The tick of
  \<^verbatim>\<open>Lenia2.main.go\<close> has the same form over its square window of offsets, and its new
  grid replaces the old one after the loops.
\<close>

theorem tick_contract:
  "(wf_game g \<longrightarrow>
      A (step g) =
        map (\<lambda>y. map (\<lambda>x.
            clamp (A g ! y ! x
                   + dt g * growth (\<Sum>k\<leftarrow>kernel g. w k * (A g ! nat ((int y + dy k) mod int gridH)
                                                       ! nat ((int x + dx k) mod int gridW)))
                              (mu g) (sigma g)) 0 1) [0..<gridW]) [0..<gridH]
      \<and> Anext (step g) = A g)
   \<and> updateField F =
        map (\<lambda>j. map (\<lambda>i.
            clamp (F ! j ! i
                   + dt_l2 * growth_l2 (\<Sum>dy\<leftarrow>[- RConv..RConv]. \<Sum>dx\<leftarrow>[- RConv..RConv].
                                          F ! nat ((int j + dy) mod int height_l2)
                                            ! nat ((int i + dx) mod int width_l2) * kernel_l2 dx dy))
              0 1) [0..<width_l2]) [0..<height_l2]"
  by (simp add: wf_game_def step_A step_other next_value_def activity_sum
      updateField_eq next_value_l2_clamp sum_l2_sum)

theorem tick_contract_witness:
  "wf_game (NewGame (\<lambda>_. 1 / 2))
   \<and> A (step (NewGame (\<lambda>_. 1 / 2))) ! 80 ! 120 =
       clamp (A (NewGame (\<lambda>_. 1 / 2)) ! 80 ! 120
              + dt (NewGame (\<lambda>_. 1 / 2))
                * growth (\<Sum>k\<leftarrow>kernel (NewGame (\<lambda>_. 1 / 2)).
                            w k * (A (NewGame (\<lambda>_. 1 / 2)) ! nat ((80 + dy k) mod int gridH)
                                                            ! nat ((120 + dx k) mod int gridW)))
                    (mu (NewGame (\<lambda>_. 1 / 2))) (sigma (NewGame (\<lambda>_. 1 / 2)))) 0 1
   \<and> Anext (step (NewGame (\<lambda>_. 1 / 2))) = A (NewGame (\<lambda>_. 1 / 2))"
proof -
  have "(80::nat) < gridH" "(120::nat) < gridW" by (simp_all add: gridH_def gridW_def)
  then show ?thesis
    using tick_contract [of "NewGame (\<lambda>_. 1 / 2)" "[]"] NewGame_wf [of "\<lambda>_. 1 / 2"]
    by simp
qed

text \<open>
  C5. For all real \<open>u\<close>, \<open>m\<close>, \<open>s\<close> the growth function is
  \<open>2 exp (- (u - m)\<^sup>2 / (2 s\<^sup>2)) - 1\<close> when \<open>s > 0\<close> and \<open>0\<close> when
  \<open>s \<le> 0\<close>; for \<open>s > 0\<close> its value lies in \<open>[-1, 1]\<close> and it takes its
  maximum, exactly \<open>1\<close>, precisely at \<open>u = m\<close>. The camera variant and
  \<^verbatim>\<open>lenia_lorenz.go\<close> define the same function, and the one-argument function of
  \<^verbatim>\<open>Lenia2.main.go\<close> is its instance at the constants \<open>muG\<close>, \<open>sigmaG\<close>.
\<close>

theorem growth_contract:
  "(0 < s \<longrightarrow>
      growth u m s = 2 * exp (- (u - m)\<^sup>2 / (2 * s\<^sup>2)) - 1
    \<and> - 1 \<le> growth u m s \<and> growth u m s \<le> 1
    \<and> (growth u m s = 1 \<longleftrightarrow> u = m)
    \<and> growth m m s = 1)
   \<and> (s \<le> 0 \<longrightarrow> growth u m s = 0)
   \<and> growth_lz u m s = growth u m s
   \<and> growth_l2 u = growth u muG sigmaG"
  using growth_pos_formula [of s u m] growth_upper [of u m s]
    growth_lower [of u m s] growth_max_iff [of s u m]
    growth_max_iff [of s m m] growth_lz_eq [of u m s] growth_l2_eq [of u]
  by (simp add: growth_def)

theorem growth_contract_witness:
  "growth 0.3 0.3 0.06 = 1 \<and> growth 0.3 0.3 0 = 0 \<and> growth_lz 0.3 0.3 0.06 = 1
   \<and> - 1 \<le> growth 0.9 0.3 0.06 \<and> growth 0.9 0.3 0.06 \<le> 1 \<and> growth 0.9 0.3 0.06 \<noteq> 1"
  using growth_contract [of "0.06" "0.3" "0.3"] growth_contract [of 0 "0.3" "0.3"]
    growth_contract [of "0.06" "0.9" "0.3"]
  by simp

text \<open>
  C6. Translation invariance of the tick of the camera variant: shifting the current grid
  cyclically by \<open>(sx, sy)\<close> and then running one tick gives exactly the cyclic shift by
  \<open>(sx, sy)\<close> of the grid obtained by one tick on the unshifted grid, with the same kernel
  and growth parameters.
\<close>

theorem translation_invariance:
  assumes "wf_game g"
  shows "A (step (g\<lparr>A := shift_field sx sy (A g)\<rparr>)) = shift_field sx sy (A (step g))"
proof -
  let ?g' = "g\<lparr>A := shift_field sx sy (A g)\<rparr>"
  have W: "0 < gridW" and H: "0 < gridH" by (simp_all add: gridW_def gridH_def)
  have wf: "wf_field (Anext g)" "wf_field (Anext ?g')" using assms by (simp_all add: wf_game_def)
  have cell: "next_value ?g' y x
              = next_value g (nat ((int y - sy) mod int gridH)) (nat ((int x - sx) mod int gridW))"
    if y: "y < gridH" and x: "x < gridW" for y x
  proof -
    let ?y' = "nat ((int y - sy) mod int gridH)" and ?x' = "nat ((int x - sx) mod int gridW)"
    have tm: "shift_field sx sy (A g) ! nat ((int y + dy k) mod int gridH)
                                    ! nat ((int x + dx k) mod int gridW)
        = A g ! nat ((int ?y' + dy k) mod int gridH) ! nat ((int ?x' + dx k) mod int gridW)" for k
    proof -
      have "shift_field sx sy (A g) ! nat ((int y + dy k) mod int gridH)
                                    ! nat ((int x + dx k) mod int gridW)
            = A g ! nat ((int (nat ((int y + dy k) mod int gridH)) - sy) mod int gridH)
                  ! nat ((int (nat ((int x + dx k) mod int gridW)) - sx) mod int gridW)"
        using W H by (intro shift_field_nth torus_index_less)
      also have "\<dots> = A g ! nat ((int ?y' + dy k) mod int gridH) ! nat ((int ?x' + dx k) mod int gridW)"
        using W H by (simp only: torus_index [of "int gridH"] torus_index [of "int gridW"] of_nat_0_less_iff)
      finally show ?thesis .
    qed
    have act: "activity ?g' y x = activity g ?y' ?x'"
      by (simp add: activity_sum tm)
    show ?thesis
      using y x by (simp add: next_value_def act shift_field_nth)
  qed
  have L: "A (step ?g') = map (\<lambda>y. map (next_value ?g' y) [0..<gridW]) [0..<gridH]"
    using wf by (simp add: step_A)
  have R: "shift_field sx sy (A (step g))
           = map (\<lambda>y. map (\<lambda>x. next_value g (nat ((int y - sy) mod int gridH))
                                            (nat ((int x - sx) mod int gridW))) [0..<gridW]) [0..<gridH]"
    using wf W H by (simp add: step_A shift_field_def torus_index_less)
  show ?thesis
    unfolding L R by (simp add: cell)
qed

theorem translation_invariance_witness:
  "wf_game (NewGame (\<lambda>_. 1 / 2))
   \<and> A (step ((NewGame (\<lambda>_. 1 / 2))\<lparr>A := shift_field 3 (- 5) (A (NewGame (\<lambda>_. 1 / 2)))\<rparr>))
       = shift_field 3 (- 5) (A (step (NewGame (\<lambda>_. 1 / 2))))"
  using translation_invariance [OF NewGame_wf [of "\<lambda>_. 1 / 2"], of 3 "- 5"]
    NewGame_wf [of "\<lambda>_. 1 / 2"]
  by simp

text \<open>
  C7 (as stated): kernel construction fails with \<open>InvalidParameter\<close> when \<open>R \<le> 0\<close>.
  The source does not: at \<open>R = -1\<close> the scan visits nothing, and \<open>buildKernel\<close> returns
  the empty entry list and \<open>1.0\<close>.
\<close>

theorem no_validation_counterexample:
  "buildKernel (- 1) = ([], 1) \<and> Inr (buildKernel (- 1)) \<noteq> buildKernel_spec (- 1)"
  by (simp add: buildKernel_negative buildKernel_spec_def)

text \<open>
  C7 (amended): kernel construction validates nothing and has no failure result. For every
  negative radius the sparse builder returns the empty kernel with \<open>1.0\<close> and the dense
  builder returns the all-zero grid; a tick of the camera variant with that kernel computes
  the activity \<open>0\<close> in every cell. Engine construction takes no width, height or radius:
  they are constants of the files.
\<close>

theorem no_validation:
  "R < 0 \<Longrightarrow>
     buildKernel R = ([], 1)
     \<and> buildKernel_lz R = replicate gridH_lz (replicate gridW_lz 0)
     \<and> (kernel g = fst (buildKernel R) \<longrightarrow> activity g y x = 0)"
  by (simp add: buildKernel_negative buildKernel_lz_negative activity_empty)

theorem no_validation_witness:
  "(- 2 :: real) < 0 \<and> buildKernel (- 2) = ([], 1)
   \<and> buildKernel_lz (- 2) = replicate gridH_lz (replicate gridW_lz 0)
   \<and> kernel ((NewGame (\<lambda>_. 1 / 2))\<lparr>kernel := fst (buildKernel (- 2))\<rparr>) = fst (buildKernel (- 2))
   \<and> activity ((NewGame (\<lambda>_. 1 / 2))\<lparr>kernel := fst (buildKernel (- 2))\<rparr>) 80 120 = 0"
  using no_validation [of "- 2" "(NewGame (\<lambda>_. 1 / 2))\<lparr>kernel := fst (buildKernel (- 2))\<rparr>" 80 120]
  by auto

text \<open>
  C8 (as stated): the initializer takes an injectable random source, and two runs with the
  same seed build the same field. \<^verbatim>\<open>NewGame()\<close> has no parameter at all: its draws come
  from the process-global generator, which \<^verbatim>\<open>lenia_lorenz.go\<close> seeds from the wall
  clock in the first statement of \<^verbatim>\<open>NewGame\<close>. Two calls after which the generator
  delivers different draws build different fields: with a first draw below \<open>0.002\<close> the
  corner cell is overwritten by the second draw, \<open>1/2000\<close> in one run and \<open>1/4000\<close> in
  the other.
\<close>

theorem global_randomness_counterexample:
  "A_lz (NewGame_lz (\<lambda>_. 1 / 2000)) \<noteq> A_lz (NewGame_lz (\<lambda>_. 1 / 4000))"
proof -
  have "A_lz (NewGame_lz (\<lambda>_. 1 / 2000)) ! 0 ! 0 \<noteq> A_lz (NewGame_lz (\<lambda>_. 1 / 4000)) ! 0 ! 0"
    by (simp add: NewGame_lz_corner init_cell_lz_hit)
  then show ?thesis by auto
qed

text \<open>
  C8 (amended): the initial field is a function of the draws that the process-global
  generator delivers, so runs with the same draws build the same game; and for every
  initial driver state and genome and every \<open>n\<close>, two runs produce the same growth
  parameters and driver state after \<open>n\<close> ticks, whatever their fields and draws. In
  particular all games built by \<^verbatim>\<open>NewGame\<close> of \<^verbatim>\<open>lenia_lorenz.go\<close> share one
  parameter sequence.
\<close>

theorem modulator_reproducible:
  "((\<forall>n. r1 n = r2 n) \<longrightarrow> NewGame r1 = NewGame r2 \<and> NewGame_lz r1 = NewGame_lz r2)
   \<and> (lorenz g1 = lorenz g2 \<and> genome g1 = genome g2 \<longrightarrow>
        genome ((step_lz ^^ n) g1) = genome ((step_lz ^^ n) g2)
        \<and> lorenz ((step_lz ^^ n) g1) = lorenz ((step_lz ^^ n) g2))
   \<and> genome ((step_lz ^^ n) (NewGame_lz r1)) = genome ((step_lz ^^ n) (NewGame_lz r2))"
proof (intro conjI impI)
  assume "\<forall>n. r1 n = r2 n"
  then have "r1 = r2" by (simp add: fun_eq_iff)
  then show "NewGame r1 = NewGame r2" "NewGame_lz r1 = NewGame_lz r2" by simp_all
next
  assume "lorenz g1 = lorenz g2 \<and> genome g1 = genome g2"
  then show "genome ((step_lz ^^ n) g1) = genome ((step_lz ^^ n) g2)"
    "lorenz ((step_lz ^^ n) g1) = lorenz ((step_lz ^^ n) g2)"
    using modulator_steps [of g1 g2 n] by simp_all
next
  have "lorenz (NewGame_lz r1) = lorenz (NewGame_lz r2)" "genome (NewGame_lz r1) = genome (NewGame_lz r2)"
    by (simp_all add: NewGame_lz_def Let_def)
  then show "genome ((step_lz ^^ n) (NewGame_lz r1)) = genome ((step_lz ^^ n) (NewGame_lz r2))"
    using modulator_steps by blast
qed

theorem modulator_reproducible_witness:
  "(\<forall>n. (\<lambda>_. 1 / 2 :: real) n = (\<lambda>_. 1 / 2) n)
   \<and> lorenz (NewGame_lz (\<lambda>_. 1 / 2000)) = lorenz (NewGame_lz (\<lambda>_. 1 / 4000))
   \<and> genome (NewGame_lz (\<lambda>_. 1 / 2000)) = genome (NewGame_lz (\<lambda>_. 1 / 4000))
   \<and> genome ((step_lz ^^ 500) (NewGame_lz (\<lambda>_. 1 / 2000)))
       = genome ((step_lz ^^ 500) (NewGame_lz (\<lambda>_. 1 / 4000)))
   \<and> lorenz ((step_lz ^^ 500) (NewGame_lz (\<lambda>_. 1 / 2000)))
       = lorenz ((step_lz ^^ 500) (NewGame_lz (\<lambda>_. 1 / 4000)))"
proof -
  have h: "lorenz (NewGame_lz (\<lambda>_. 1 / 2000)) = lorenz (NewGame_lz (\<lambda>_. 1 / 4000))
           \<and> genome (NewGame_lz (\<lambda>_. 1 / 2000)) = genome (NewGame_lz (\<lambda>_. 1 / 4000))"
    by (simp add: NewGame_lz_def Let_def)
  show ?thesis
    using h modulator_reproducible [of "\<lambda>_. 1 / 2" "\<lambda>_. 1 / 2"
        "NewGame_lz (\<lambda>_. 1 / 2000)" "NewGame_lz (\<lambda>_. 1 / 4000)" 500]
    by simp
qed

text \<open>
  C9. Every tick of \<^verbatim>\<open>lenia_lorenz.go\<close> advances the driver by exactly one explicit
  Euler step, \<open>x += dt\<^sub>d sigma (y - x)\<close>, \<open>y += dt\<^sub>d (x (rho - z) - y)\<close>,
  \<open>z += dt\<^sub>d (x y - b z)\<close>, with the driver's own step size \<open>dt\<^sub>d\<close>: the new driver
  state does not depend on the genome (so not on the field's \<open>Dt\<close>) nor on the field.
  The tick then recomputes the genome from the new driver state: \<open>Mu\<close> is moved by
  \<open>0.002 tanh (x / 20)\<close> and clamped to \<open>[0.01, 1]\<close>, \<open>Sigma\<close> is scaled by
  \<open>1 + 0.001 y\<close> and clamped to \<open>[0.001, 1]\<close>; \<open>Dt\<close> and the driver's step size stay.
\<close>

theorem driver_step:
  "lorenz (step_lz g) =
     (lorenz g)\<lparr>
       x_lor := x_lor (lorenz g)
                + dt_lor (lorenz g) * sigma_lor (lorenz g) * (y_lor (lorenz g) - x_lor (lorenz g)),
       y_lor := y_lor (lorenz g)
                + dt_lor (lorenz g)
                  * (x_lor (lorenz g) * (rho_lor (lorenz g) - z_lor (lorenz g)) - y_lor (lorenz g)),
       z_lor := z_lor (lorenz g)
                + dt_lor (lorenz g)
                  * (x_lor (lorenz g) * y_lor (lorenz g) - b_lor (lorenz g) * z_lor (lorenz g))\<rparr>
   \<and> lorenz (step_lz g) = Step (lorenz g)
   \<and> lorenz (step_lz (g\<lparr>genome := gen, A_lz := F\<rparr>)) = lorenz (step_lz g)
   \<and> genome (step_lz g) =
       (genome g)\<lparr>
         Mu := clamp (Mu (genome g) + 0.002 * tanh (x_lor (lorenz (step_lz g)) / 20)) 0.01 1,
         Sigma := clamp (Sigma (genome g) * (1 + 0.001 * y_lor (lorenz (step_lz g)))) 0.001 1,
         ColorBias := tanh (z_lor (lorenz (step_lz g)) / 30)\<rparr>
   \<and> Dt (genome (step_lz g)) = Dt (genome g)
   \<and> dt_lor (lorenz (step_lz g)) = dt_lor (lorenz g)"
  by (simp add: step_lz_other Step_def modulate_def Let_def algebra_simps)

text \<open>
  C10. After every tick of \<^verbatim>\<open>lenia_lorenz.go\<close> the growth parameters satisfy
  \<open>0.01 \<le> Mu \<le> 1\<close> and \<open>0.001 \<le> Sigma \<le> 1\<close>, whatever the state before the tick;
  the constructed game satisfies the bounds before its first tick too. So \<open>Sigma\<close> is
  positive whenever the tick calls the growth function, which then never takes its
  \<open>sigma \<le> 0\<close> branch.
\<close>

theorem genome_invariant:
  "0.01 \<le> Mu (genome ((step_lz ^^ Suc n) g)) \<and> Mu (genome ((step_lz ^^ Suc n) g)) \<le> 1.0
   \<and> 0.001 \<le> Sigma (genome ((step_lz ^^ Suc n) g)) \<and> Sigma (genome ((step_lz ^^ Suc n) g)) \<le> 1.0
   \<and> 0.01 \<le> Mu (genome ((step_lz ^^ n) (NewGame_lz r)))
   \<and> Mu (genome ((step_lz ^^ n) (NewGame_lz r))) \<le> 1.0
   \<and> 0.001 \<le> Sigma (genome ((step_lz ^^ n) (NewGame_lz r)))
   \<and> Sigma (genome ((step_lz ^^ n) (NewGame_lz r))) \<le> 1.0
   \<and> (\<forall>u. growth_lz u (Mu (genome (step_lz g))) (Sigma (genome (step_lz g)))
          = 2 * exp (- (u - Mu (genome (step_lz g)))\<^sup>2 / (2 * (Sigma (genome (step_lz g)))\<^sup>2)) - 1)"
proof -
  have new: "0.01 \<le> Mu (genome ((step_lz ^^ n) (NewGame_lz r)))
   \<and> Mu (genome ((step_lz ^^ n) (NewGame_lz r))) \<le> 1.0
   \<and> 0.001 \<le> Sigma (genome ((step_lz ^^ n) (NewGame_lz r)))
   \<and> Sigma (genome ((step_lz ^^ n) (NewGame_lz r))) \<le> 1.0"
  proof (cases n)
    case 0
    then show ?thesis by (simp add: NewGame_lz_def Let_def)
  next
    case (Suc k)
    then show ?thesis
      using modulate_range [of "Step (lorenz ((step_lz ^^ k) (NewGame_lz r)))" "genome ((step_lz ^^ k) (NewGame_lz r))"]
      by (simp add: step_lz_other)
  qed
  have pos: "0 < Sigma (genome (step_lz g))"
    using modulate_range [of "Step (lorenz g)" "genome g"] by (simp add: step_lz_other)
  show ?thesis
    using modulate_range [of "Step (lorenz ((step_lz ^^ n) g))" "genome ((step_lz ^^ n) g)"] new
      growth_pos_formula [OF pos]
    by (simp add: step_lz_other growth_lz_eq)
qed

end
